theory Spec2Isabelle
  imports Complex_Main "HOL-Library.Char_ord" "HOL-Library.List_Lexorder"
begin

section \<open>Acoustic diagnosis pipeline: data model\<close>

text \<open>
  The notebook \<^verbatim>\<open>Acoustic_TF_LSTM_MFCC.ipynb\<close> turns recordings into overlapping
  windows of MFCC features, trains a recurrent classifier on them and labels a new recording
  by the mode of its per-window predictions. The functions of the notebook are embedded
  below under their own names. What the notebook calls in numpy, librosa and TensorFlow
  is outside the repository: numpy's arithmetic on samples, the MFCC transform and the
  optimizer step are parameters of the model, each able to fail where the library can.
  The window starts are half-integers, which binary floating point holds exactly, and are
  reals here.
\<close>

text \<open>
  The exceptions that matter below. \<open>IndexError\<close>, \<open>ZeroDivisionError\<close> and
  \<open>ValueError\<close> are Python's own, \<open>ParameterError\<close> is librosa's.
  \<open>DegenerateSignalError\<close> is the error that the specification expects of the signal
  normalizer; it is here so that the expectation can be stated, and nothing raises it.
\<close>

datatype py_error =
  IndexError | ZeroDivisionError | ValueError | ParameterError | DegenerateSignalError

text \<open>
  A numpy float: a finite value or one of the three special values. The sign of a zero
  is not kept.
\<close>

datatype npfloat = Fin real | NaN | PosInf | NegInf

text \<open>
  A two-dimensional array: its shape and its cells in row-major order. The shape is kept
  apart from the cells because an array with no rows still has a number of columns.
\<close>

datatype 'a ndarray = Matrix (nrows: nat) (ncols: nat) (cells: "'a list")

definition shape :: "'a ndarray \<Rightarrow> nat \<times> nat" where
  "shape m = (nrows m, ncols m)"

text \<open>The attribute \<^verbatim>\<open>.T\<close> of a two-dimensional array.\<close>

definition transpose_T :: "'a ndarray \<Rightarrow> 'a ndarray" where
  "transpose_T m =
     Matrix (ncols m) (nrows m)
       (concat (map (\<lambda>j. map (\<lambda>i. cells m ! (i * ncols m + j)) [0..<nrows m]) [0..<ncols m]))"

text \<open>
  Python's \<^verbatim>\<open>xs[start:stop]\<close>: a negative index counts from the end, every index is
  clamped to the sequence, and an empty range gives the empty sequence. It never raises.
\<close>

definition slice_index :: "nat \<Rightarrow> int \<Rightarrow> nat" where
  "slice_index n i = (if i < 0 then nat (max 0 (i + int n)) else min (nat i) n)"

definition py_slice :: "'a list \<Rightarrow> int \<Rightarrow> int \<Rightarrow> 'a list" where
  "py_slice xs start stop =
     (let lo = slice_index (length xs) start; hi = slice_index (length xs) stop
      in take (hi - lo) (drop lo xs))"

text \<open>Python's \<^verbatim>\<open>int(x)\<close> on a float truncates towards zero.\<close>

definition py_int :: "real \<Rightarrow> int" where
  "py_int x = (if 0 \<le> x then \<lfloor>x\<rfloor> else \<lceil>x\<rceil>)"

section \<open>Signal normalizer\<close>

text \<open>
  \<^verbatim>\<open>
  def feature_normalize(dataset):
      mu = np.mean(dataset, axis=0)
      sigma = np.std(dataset, axis=0)
      return (dataset - mu) / sigma
  \<close>
  The four operations are numpy's, in floating point: the mean and the standard deviation
  of an array, and the subtraction and the division of an array by a number, done entry
  by entry. They are the fields of \<open>numpy\<close>, and what is proved of the normalizer holds
  for every such arithmetic. None of them raises: numpy's division by zero gives
  \<open>nan\<close> or an infinity (with a warning). The function has no \<^verbatim>\<open>raise\<close>; its
  result is written as a sum so that this can be stated.
\<close>

record numpy =
  np_mean :: "npfloat list \<Rightarrow> npfloat"
  np_std :: "npfloat list \<Rightarrow> npfloat"
  np_subtract :: "npfloat \<Rightarrow> npfloat \<Rightarrow> npfloat"
  np_divide :: "npfloat \<Rightarrow> npfloat \<Rightarrow> npfloat"

definition feature_normalize :: "numpy \<Rightarrow> npfloat list \<Rightarrow> py_error + npfloat list" where
  "feature_normalize np dataset =
     (let mu = np_mean np dataset; sigma = np_std np dataset
      in Inr (map (\<lambda>x. np_divide np (np_subtract np x mu) sigma) dataset))"

text \<open>
  One arithmetic, for running the model on concrete samples: the operations computed
  exactly on finite values, with numpy's results on the special values. \<open>np.std\<close> is
  the population standard deviation. On small integers, in arrays whose length is a power
  of two, floating point computes the same values.
\<close>

fun is_fin :: "npfloat \<Rightarrow> bool" where
  "is_fin (Fin r) = True"
| "is_fin v = False"

fun the_fin :: "npfloat \<Rightarrow> real" where
  "the_fin (Fin r) = r"
| "the_fin v = 0"

definition exact_mean :: "npfloat list \<Rightarrow> npfloat" where
  "exact_mean dataset =
     (if dataset = [] then NaN
      else if list_all is_fin dataset
        then Fin (sum_list (map the_fin dataset) / real (length dataset))
      else if NaN \<in> set dataset \<or> (PosInf \<in> set dataset \<and> NegInf \<in> set dataset) then NaN
      else if PosInf \<in> set dataset then PosInf else NegInf)"

definition exact_std :: "npfloat list \<Rightarrow> npfloat" where
  "exact_std dataset =
     (if dataset \<noteq> [] \<and> list_all is_fin dataset
      then Fin (sqrt (sum_list (map (\<lambda>x. \<bar>the_fin x - the_fin (exact_mean dataset)\<bar> ^ 2) dataset)
                       / real (length dataset)))
      else NaN)"

fun exact_subtract :: "npfloat \<Rightarrow> npfloat \<Rightarrow> npfloat" where
  "exact_subtract (Fin a) (Fin b) = Fin (a - b)"
| "exact_subtract NaN b = NaN"
| "exact_subtract a NaN = NaN"
| "exact_subtract PosInf PosInf = NaN"
| "exact_subtract NegInf NegInf = NaN"
| "exact_subtract PosInf b = PosInf"
| "exact_subtract NegInf b = NegInf"
| "exact_subtract (Fin a) PosInf = NegInf"
| "exact_subtract (Fin a) NegInf = PosInf"

fun exact_divide :: "npfloat \<Rightarrow> npfloat \<Rightarrow> npfloat" where
  "exact_divide (Fin a) (Fin b) =
     (if b \<noteq> 0 then Fin (a / b)
      else if a = 0 then NaN
      else if 0 < a then PosInf else NegInf)"
| "exact_divide NaN b = NaN"
| "exact_divide a NaN = NaN"
| "exact_divide (Fin a) b = Fin 0"
| "exact_divide PosInf (Fin b) = (if 0 \<le> b then PosInf else NegInf)"
| "exact_divide NegInf (Fin b) = (if 0 \<le> b then NegInf else PosInf)"
| "exact_divide a b = NaN"

definition exact_numpy :: numpy where
  "exact_numpy =
     \<lparr>np_mean = exact_mean, np_std = exact_std,
      np_subtract = exact_subtract, np_divide = exact_divide\<rparr>"

section \<open>Window generator\<close>

text \<open>
  \<^verbatim>\<open>
  def windows(data, window_size):
      start = 0
      while start < len(data):
          yield int(start), int(start + window_size)
          start += (window_size / 2) # stepping at half window size
  \<close>
  The notebook runs on Python 3, so \<open>window_size / 2\<close> is a float and \<open>start\<close>
  becomes one after the first step. The generator is consumed to its end by its only
  caller; the model is the list of all pairs it yields, \<open>None\<close> when the loop never ends.
\<close>

partial_function (option) windows_from :: "real \<Rightarrow> nat \<Rightarrow> int \<Rightarrow> (int \<times> int) list option" where
  "windows_from start n window_size =
     (if start < real n
      then Option.bind (windows_from (start + real_of_int window_size / 2) n window_size)
             (\<lambda>rest. Some ((py_int start, py_int (start + real_of_int window_size)) # rest))
      else Some [])"

definition windows :: "'a list \<Rightarrow> int \<Rightarrow> (int \<times> int) list option" where
  "windows data window_size = windows_from 0 (length data) window_size"

text \<open>
  The test of the caller, \<^verbatim>\<open>len(sound_clip[start:end]) == window_size\<close>, and the pairs
  of the generator that pass it.
\<close>

definition full_length :: "'a list \<Rightarrow> int \<Rightarrow> int \<times> int \<Rightarrow> bool" where
  "full_length sound_clip window_size p =
     (int (length (py_slice sound_clip (fst p) (snd p))) = window_size)"

definition kept_windows :: "'a list \<Rightarrow> int \<Rightarrow> (int \<times> int) list option" where
  "kept_windows sound_clip window_size =
     map_option (filter (full_length sound_clip window_size)) (windows sound_clip window_size)"

section \<open>Feature extractor\<close>

text \<open>
  \<^verbatim>\<open>
  def extract_features(base_dir, sound_file_paths, sound_names, bands = 20, frames = 41):
      window_size = 512 * (frames - 1)
      mfccs = []
      labels = []
      for i, sound_file_path in enumerate(sound_file_paths):
          sound_file_full_path = os.path.join(base_dir, sound_file_path)
          sound_clip,s = librosa.load(sound_file_full_path)
          sound_clip = feature_normalize(sound_clip)
          label = sound_names[i]
          for (start,end) in windows(sound_clip,window_size):
              if(len(sound_clip[start:end]) == window_size):
                  signal = sound_clip[start:end]
                  mfcc = librosa.feature.mfcc(y=signal, sr=s, n_mfcc = bands).T
                  mfccs.append(mfcc)
                  labels.append(label)
      features = np.asarray(mfccs)
      return np.array(features), np.array(labels,dtype = np.str)
  \<close>
  The two calls into librosa are outside the repository. Decoding is taken as done: the
  function receives, for each file, its samples and its sample rate. The transform
  \<open>librosa.feature.mfcc\<close> is a parameter \<open>mfcc y sr n_mfcc\<close> that returns an array
  or raises, as the library does on a buffer that holds a value that is not finite. What
  the library documents of an array it returns, \<open>n_mfcc\<close> rows and one column per hop
  of 512 samples plus one, is the predicate \<open>mfcc_shape\<close>.
\<close>

definition mfcc_shape :: "(npfloat list \<Rightarrow> nat \<Rightarrow> nat \<Rightarrow> py_error + 'a ndarray) \<Rightarrow> bool" where
  "mfcc_shape mfcc =
     (\<forall>y sr n_mfcc m. mfcc y sr n_mfcc = Inr m \<longrightarrow> shape m = (n_mfcc, 1 + length y div 512))"

text \<open>
  The inner loop over the windows of one normalized recording. The generator is lazy: the
  body of the \<^verbatim>\<open>for\<close> statement runs between two steps of the generator, so an
  exception of the body ends the run before the generator is resumed. The loop is
  therefore the loop of \<open>windows\<close> with the body at the place of its \<^verbatim>\<open>yield\<close>;
  \<open>start\<close> is the variable of the generator. The result is \<open>None\<close> when the loop
  never ends.
\<close>

partial_function (option) window_loop ::
  "(npfloat list \<Rightarrow> nat \<Rightarrow> nat \<Rightarrow> py_error + 'a ndarray) \<Rightarrow> npfloat list \<Rightarrow> nat \<Rightarrow> nat \<Rightarrow> int \<Rightarrow>
   real \<Rightarrow> (py_error + 'a ndarray list) option" where
  "window_loop mfcc sound_clip s bands window_size start =
     (if start < real (length sound_clip)
      then
        (if full_length sound_clip window_size
              (py_int start, py_int (start + real_of_int window_size))
         then
           (case mfcc (py_slice sound_clip (py_int start)
                         (py_int (start + real_of_int window_size))) s bands of
              Inl e \<Rightarrow> Some (Inl e)
            | Inr m \<Rightarrow>
                Option.bind
                  (window_loop mfcc sound_clip s bands window_size
                     (start + real_of_int window_size / 2))
                  (\<lambda>r. Some (case r of Inl e \<Rightarrow> Inl e | Inr ms \<Rightarrow> Inr (transpose_T m # ms))))
         else window_loop mfcc sound_clip s bands window_size
                (start + real_of_int window_size / 2))
      else Some (Inr []))"

definition clip_features ::
  "(npfloat list \<Rightarrow> nat \<Rightarrow> nat \<Rightarrow> py_error + 'a ndarray) \<Rightarrow> npfloat list \<Rightarrow> nat \<Rightarrow> nat \<Rightarrow> int \<Rightarrow>
   (py_error + 'a ndarray list) option" where
  "clip_features mfcc sound_clip s bands window_size =
     window_loop mfcc sound_clip s bands window_size 0"

text \<open>
  The outer loop over the recordings, \<open>i\<close> the index of \<^verbatim>\<open>enumerate\<close>. The result is
  \<open>None\<close> when a window loop never ends, the first error raised (by
  \<^verbatim>\<open>sound_names[i]\<close> out of range or by the transform) when there is one, and
  otherwise the windows with one label for each.
\<close>

fun extract_loop ::
  "numpy \<Rightarrow> (npfloat list \<Rightarrow> nat \<Rightarrow> nat \<Rightarrow> py_error + 'a ndarray) \<Rightarrow> (npfloat list \<times> nat) list \<Rightarrow>
   nat \<Rightarrow> string list \<Rightarrow> nat \<Rightarrow> int \<Rightarrow> (py_error + 'a ndarray list \<times> string list) option" where
  "extract_loop np mfcc [] i sound_names bands window_size = Some (Inr ([], []))"
| "extract_loop np mfcc (clip # clips) i sound_names bands window_size =
     (case feature_normalize np (fst clip) of
        Inl e \<Rightarrow> Some (Inl e)
      | Inr sound_clip \<Rightarrow>
          if length sound_names \<le> i then Some (Inl IndexError)
          else
            (case clip_features mfcc sound_clip (snd clip) bands window_size of
               None \<Rightarrow> None
             | Some (Inl e) \<Rightarrow> Some (Inl e)
             | Some (Inr ws) \<Rightarrow>
                 (case extract_loop np mfcc clips (Suc i) sound_names bands window_size of
                    None \<Rightarrow> None
                  | Some (Inl e) \<Rightarrow> Some (Inl e)
                  | Some (Inr r) \<Rightarrow>
                      Some (Inr (ws @ fst r,
                                 replicate (length ws) (sound_names ! i) @ snd r)))))"

definition extract_features ::
  "numpy \<Rightarrow> (npfloat list \<Rightarrow> nat \<Rightarrow> nat \<Rightarrow> py_error + 'a ndarray) \<Rightarrow> (npfloat list \<times> nat) list \<Rightarrow>
   string list \<Rightarrow> nat \<Rightarrow> int \<Rightarrow> (py_error + 'a ndarray list \<times> string list) option" where
  "extract_features np mfcc clips sound_names bands frames =
     extract_loop np mfcc clips 0 sound_names bands (512 * (frames - 1))"

text \<open>
  For stating what the inner loop emits: the transposed transforms of the slices of a list
  of pairs, in order, up to the first error.
\<close>

fun mfcc_of_pairs ::
  "(npfloat list \<Rightarrow> nat \<Rightarrow> nat \<Rightarrow> py_error + 'a ndarray) \<Rightarrow> npfloat list \<Rightarrow> nat \<Rightarrow> nat \<Rightarrow>
   (int \<times> int) list \<Rightarrow> py_error + 'a ndarray list" where
  "mfcc_of_pairs mfcc sound_clip s bands [] = Inr []"
| "mfcc_of_pairs mfcc sound_clip s bands (p # ps) =
     (case mfcc (py_slice sound_clip (fst p) (snd p)) s bands of
        Inl e \<Rightarrow> Inl e
      | Inr m \<Rightarrow>
          (case mfcc_of_pairs mfcc sound_clip s bands ps of
             Inl e \<Rightarrow> Inl e
           | Inr ms \<Rightarrow> Inr (transpose_T m # ms)))"

text \<open>
  One transform, for running the model on concrete samples: it refuses a buffer that holds
  a value that is not finite, as librosa does, and returns an array of the documented
  shape. The coefficients themselves are not modelled and are zero.
\<close>

definition shape_only_mfcc :: "npfloat list \<Rightarrow> nat \<Rightarrow> nat \<Rightarrow> py_error + real ndarray" where
  "shape_only_mfcc y sr n_mfcc =
     (if list_all is_fin y
      then Inr (Matrix n_mfcc (1 + length y div 512)
                  (replicate (n_mfcc * (1 + length y div 512)) 0))
      else Inl ParameterError)"

section \<open>Labels\<close>

text \<open>
  \<^verbatim>\<open>
  def one_hot_encode(labels):
      return np.asarray(pd.get_dummies(labels), dtype = np.float32)
  \<close>
  \<open>pd.get_dummies\<close> makes one indicator column for each distinct value, the columns in
  sorted order of the values. Python compares strings by code point, which on the ASCII
  class names is the lexicographic order of \<open>char list\<close>.
\<close>

definition get_dummies_columns :: "string list \<Rightarrow> string list" where
  "get_dummies_columns labels = sort (remdups labels)"

definition one_hot_encode :: "string list \<Rightarrow> real list list" where
  "one_hot_encode labels =
     map (\<lambda>l. map (\<lambda>c. if l = c then 1 else 0) (get_dummies_columns labels)) labels"

text \<open>The tags of the six training recordings, and the label list of the inference cell.\<close>

definition sound_names :: "string list" where
  "sound_names = [''new'', ''new'', ''used'', ''used'', ''red'', ''red'']"

definition LABELS :: "string list" where
  "LABELS = [''new'', ''used'', ''red'']"

section \<open>Trainer\<close>

text \<open>
  \<^verbatim>\<open>
  loss_f = -tf.reduce_sum(y * tf.log(prediction))
  \<close>
  Both tensors have one row for each example and one column for each class.
\<close>

definition tf_log :: "real list list \<Rightarrow> real list list" where
  "tf_log t = map (map ln) t"

definition tf_multiply :: "real list list \<Rightarrow> real list list \<Rightarrow> real list list" where
  "tf_multiply a b = map2 (map2 (*)) a b"

definition reduce_sum :: "real list list \<Rightarrow> real" where
  "reduce_sum t = sum_list (concat t)"

definition loss_f :: "real list list \<Rightarrow> real list list \<Rightarrow> real" where
  "loss_f y prediction = - reduce_sum (tf_multiply y (tf_log prediction))"

text \<open>
  The loss as the specification words it: minus the sum, over every example and every
  class, of the true label times the logarithm of the predicted probability.
\<close>

definition cross_entropy_sum :: "nat \<Rightarrow> real list list \<Rightarrow> real list list \<Rightarrow> real" where
  "cross_entropy_sum n_classes y prediction =
     - (\<Sum>i<length y. \<Sum>j<n_classes. (y ! i ! j) * ln (prediction ! i ! j))"

text \<open>
  \<^verbatim>\<open>
  for itr in range(training_iters):
      offset = (itr * batch_size) % (labels.shape[0] - batch_size)
      batch_x = X_train[offset:(offset + batch_size), :, :]
      batch_y = y_train[offset:(offset + batch_size), :]
      _, c = session.run([optimizer, loss_f],feed_dict={x: batch_x, y : batch_y, keep_prob: 0.95})
  \<close>
  \<open>labels\<close> is the one-hot array of the whole corpus, \<open>X_train\<close> and \<open>y_train\<close> are
  the training split. Python's \<open>%\<close> takes the sign of the divisor, as \<open>mod\<close> on
  \<open>int\<close> does, and raises on a zero divisor. The optimizer step, \<^verbatim>\<open>session.run\<close>, is
  outside the repository: it is the parameter \<open>step\<close>, which takes the parameters of
  the model and a batch and returns the new parameters or raises. The progress report
  every \<open>display_step\<close> iterations changes nothing and is left out.
\<close>

definition batch_offset :: "nat \<Rightarrow> int \<Rightarrow> int \<Rightarrow> py_error + int" where
  "batch_offset n_labels batch_size itr =
     (if int n_labels - batch_size = 0 then Inl ZeroDivisionError
      else Inr ((itr * batch_size) mod (int n_labels - batch_size)))"

definition select_batch ::
  "'x list \<Rightarrow> 'y list \<Rightarrow> nat \<Rightarrow> int \<Rightarrow> int \<Rightarrow> py_error + 'x list \<times> 'y list" where
  "select_batch X_train y_train n_labels batch_size itr =
     (case batch_offset n_labels batch_size itr of
        Inl e \<Rightarrow> Inl e
      | Inr offset \<Rightarrow>
          Inr (py_slice X_train offset (offset + batch_size),
               py_slice y_train offset (offset + batch_size)))"

fun train_loop ::
  "('p \<Rightarrow> 'x list \<Rightarrow> 'y list \<Rightarrow> py_error + 'p) \<Rightarrow> 'x list \<Rightarrow> 'y list \<Rightarrow> nat \<Rightarrow> int \<Rightarrow>
   int list \<Rightarrow> 'p \<Rightarrow> py_error + 'p" where
  "train_loop step X_train y_train n_labels batch_size [] params = Inr params"
| "train_loop step X_train y_train n_labels batch_size (itr # itrs) params =
     (case select_batch X_train y_train n_labels batch_size itr of
        Inl e \<Rightarrow> Inl e
      | Inr b \<Rightarrow>
          (case step params (fst b) (snd b) of
             Inl e \<Rightarrow> Inl e
           | Inr params' \<Rightarrow>
               train_loop step X_train y_train n_labels batch_size itrs params'))"

definition train ::
  "('p \<Rightarrow> 'x list \<Rightarrow> 'y list \<Rightarrow> py_error + 'p) \<Rightarrow> 'x list \<Rightarrow> 'y list \<Rightarrow> nat \<Rightarrow> int \<Rightarrow>
   nat \<Rightarrow> 'p \<Rightarrow> py_error + 'p" where
  "train step X_train y_train n_labels batch_size training_iters params =
     train_loop step X_train y_train n_labels batch_size
       (map int [0..<training_iters]) params"

text \<open>The configuration of the notebook.\<close>

definition training_iters :: nat where
  "training_iters = 300"

definition batch_size :: int where
  "batch_size = 5"

definition n_classes :: nat where
  "n_classes = 3"

section \<open>Inference aggregator\<close>

text \<open>
  \<^verbatim>\<open>
  LABELS = ["new","used","red"]
  predicted_logit = stats.mode(np.argmax(y_predicts,1))[0][0]
  predicted_label = LABELS[predicted_logit]
  predicted_probability = stats.mode(np.argmax(y_predicts,1))[1][0] / len(y_predicts)
  \<close>
  \<open>np.argmax\<close> gives the first position of the largest entry of each row and raises
  on a row without entries. \<open>scipy.stats.mode\<close>, in the release of the notebook's time,
  walks the sorted distinct values and keeps a value only when its count is strictly
  larger than the best so far; on an empty array it returns two empty arrays, so the
  \<^verbatim>\<open>[0][0]\<close> that follows raises.
\<close>

fun argmax_scan :: "nat \<Rightarrow> 'a::linorder \<Rightarrow> nat \<Rightarrow> 'a list \<Rightarrow> nat" where
  "argmax_scan best bv i [] = best"
| "argmax_scan best bv i (x # xs) =
     (if bv < x then argmax_scan i x (Suc i) xs else argmax_scan best bv (Suc i) xs)"

fun argmax_row :: "'a::linorder list \<Rightarrow> nat" where
  "argmax_row [] = 0"
| "argmax_row (x # xs) = argmax_scan 0 x 1 xs"

definition np_argmax :: "'a::linorder list list \<Rightarrow> py_error + nat list" where
  "np_argmax y = (if [] \<in> set y then Inl ValueError else Inr (map argmax_row y))"

definition mode_step :: "nat list \<Rightarrow> nat \<times> nat \<Rightarrow> nat \<Rightarrow> nat \<times> nat" where
  "mode_step a st score =
     (let counts = count_list a score
      in (if snd st < counts then score else fst st, max counts (snd st)))"

definition stats_mode :: "nat list \<Rightarrow> nat \<times> nat" where
  "stats_mode a = foldl (mode_step a) (0, 0) (sort (remdups a))"

definition predict_recording :: "real list list \<Rightarrow> py_error + string \<times> real" where
  "predict_recording y_predicts =
     (case np_argmax y_predicts of
        Inl e \<Rightarrow> Inl e
      | Inr am \<Rightarrow>
          if am = [] then Inl IndexError
          else
            (let predicted_logit = fst (stats_mode am)
             in if length LABELS \<le> predicted_logit then Inl IndexError
                else Inr (LABELS ! predicted_logit,
                          real (snd (stats_mode am)) / real (length y_predicts))))"

section \<open>Properties of the window generator\<close>

lemma windows_from_stop: "real n \<le> start \<Longrightarrow> windows_from start n window_size = Some []"
  by (subst windows_from.simps) simp

lemma windows_from_step:
  "start < real n \<Longrightarrow>
   windows_from start n window_size =
     Option.bind (windows_from (start + real_of_int window_size / 2) n window_size)
       (\<lambda>rest. Some ((py_int start, py_int (start + real_of_int window_size)) # rest))"
  by (subst windows_from.simps) simp

lemma windows_from_diverges:
  assumes "window_size \<le> 0" and "start < real n"
  shows "windows_from start n window_size = None"
proof (rule ccontr)
  assume "windows_from start n window_size \<noteq> None"
  then obtain ys where ys: "windows_from start n window_size = Some ys"
    by auto
  have "\<not> (window_size \<le> 0 \<and> start < real n)"
  proof (induction rule: windows_from.raw_induct[OF _ ys])
    case (1 f start n window_size ys)
    show ?case
    proof
      assume a: "window_size \<le> 0 \<and> start < real n"
      with 1(2) obtain rest
        where r: "f (start + real_of_int window_size / 2) n window_size = Some rest"
        by (auto simp: bind_eq_Some_conv)
      have "start + real_of_int window_size / 2 \<le> start"
        using a by simp
      with a 1(1)[OF r] show False
        by simp
    qed
  qed
  with assms show False
    by simp
qed

lemma windows_from_terminates:
  assumes "0 < window_size"
    and "real n \<le> start + real k * (real_of_int window_size / 2)"
  shows "\<exists>ys. windows_from start n window_size = Some ys"
  using assms(2)
proof (induction k arbitrary: start)
  case 0
  then show ?case
    by (simp add: windows_from_stop)
next
  case (Suc k)
  have "real n \<le> (start + real_of_int window_size / 2) + real k * (real_of_int window_size / 2)"
    using Suc.prems by (simp add: field_simps)
  from Suc.IH[OF this] obtain ys
    where ys: "windows_from (start + real_of_int window_size / 2) n window_size = Some ys"
    by auto
  show ?case
  proof (cases "start < real n")
    case True
    then show ?thesis
      by (simp add: windows_from_step ys)
  next
    case False
    then show ?thesis
      by (simp add: windows_from_stop)
  qed
qed

lemma windows_from_total:
  assumes "0 < window_size"
  shows "\<exists>ys. windows_from start n window_size = Some ys"
proof -
  have pos: "0 < real_of_int window_size / 2"
    using assms by simp
  obtain k :: nat where "(real n - start) / (real_of_int window_size / 2) \<le> real k"
    using real_arch_simple by blast
  with pos have "real n - start \<le> real k * (real_of_int window_size / 2)"
    by (simp add: pos_divide_le_eq)
  then have "real n \<le> start + real k * (real_of_int window_size / 2)"
    by simp
  with assms show ?thesis
    by (rule windows_from_terminates)
qed

lemma py_int_of_int [simp]: "py_int (real_of_int i) = i"
  by (simp add: py_int_def)

lemma py_int_zero [simp]: "py_int 0 = 0"
  by (simp add: py_int_def)

lemma windows_from_pairs:
  assumes "windows_from start n window_size = Some ys"
  shows "0 \<le> start \<longrightarrow> 0 < window_size \<longrightarrow>
    (\<forall>p\<in>set ys. 0 \<le> fst p \<and> fst p < int n \<and> snd p = fst p + window_size)"
proof (induction rule: windows_from.raw_induct[OF _ assms])
  case (1 f start n window_size ys)
  show ?case
  proof (intro impI)
    assume s: "0 \<le> start" and w: "0 < window_size"
    show "\<forall>p\<in>set ys. 0 \<le> fst p \<and> fst p < int n \<and> snd p = fst p + window_size"
    proof (cases "start < real n")
      case True
      with 1(2) obtain rest
        where r: "f (start + real_of_int window_size / 2) n window_size = Some rest"
          and ys: "ys = (py_int start, py_int (start + real_of_int window_size)) # rest"
        by (auto simp: bind_eq_Some_conv)
      have "0 \<le> start + real_of_int window_size / 2"
        using s w by simp
      with 1(1)[OF r] w
      have rest: "\<forall>p\<in>set rest. 0 \<le> fst p \<and> fst p < int n \<and> snd p = fst p + window_size"
        by simp
      have "\<lfloor>start\<rfloor> < int n"
        using True by (simp add: floor_less_iff)
      moreover have "\<lfloor>start + real_of_int window_size\<rfloor> = \<lfloor>start\<rfloor> + window_size"
        by simp
      ultimately show ?thesis
        using s w rest by (simp add: ys py_int_def)
    next
      case False
      with 1(2) show ?thesis
        by simp
    qed
  qed
qed

lemma length_py_slice_nonneg:
  assumes "0 \<le> s" and "s \<le> e"
  shows "int (length (py_slice xs s e)) = min e (int (length xs)) - min s (int (length xs))"
proof -
  have lo: "slice_index (length xs) s = nat (min s (int (length xs)))"
    using assms by (simp add: slice_index_def min_def) linarith
  have hi: "slice_index (length xs) e = nat (min e (int (length xs)))"
    using assms by (simp add: slice_index_def min_def) linarith
  have "length (py_slice xs s e) =
      min (nat (min e (int (length xs))) - nat (min s (int (length xs))))
          (length xs - nat (min s (int (length xs))))"
    by (simp add: py_slice_def Let_def lo hi)
  then show ?thesis
    using assms by (simp add: min_def split: if_splits) linarith+
qed

lemma full_length_iff:
  assumes "0 \<le> s" and "s < int (length xs)" and "0 < w"
  shows "full_length xs w (s, s + w) \<longleftrightarrow> s + w \<le> int (length xs)"
  using assms by (auto simp: full_length_def length_py_slice_nonneg min_def)

lemma int_div_step:
  fixes h :: int
  assumes "0 < h"
  shows "(a + h) div h = a div h + 1"
  using assms by simp

lemma kept_count_even:
  assumes "0 < h"
  shows "0 \<le> s \<Longrightarrow> \<exists>ys. windows_from (real_of_int s) (length xs) (2 * h) = Some ys \<and>
     int (length (filter (full_length xs (2 * h)) ys)) =
       (if s + 2 * h \<le> int (length xs) then (int (length xs) - s - 2 * h) div h + 1 else 0)"
proof (induction "nat (int (length xs) - s)" arbitrary: s rule: less_induct)
  case less
  show ?case
  proof (cases "s < int (length xs)")
    case False
    then have "real (length xs) \<le> real_of_int s"
      by linarith
    then have "windows_from (real_of_int s) (length xs) (2 * h) = Some []"
      by (rule windows_from_stop)
    with False assms show ?thesis
      by simp
  next
    case True
    then have lt: "real_of_int s < real (length xs)"
      by linarith
    have nxt: "real_of_int s + real_of_int (2 * h) / 2 = real_of_int (s + h)"
      by simp
    have "nat (int (length xs) - (s + h)) < nat (int (length xs) - s)"
      using True assms by linarith
    moreover have "0 \<le> s + h"
      using less.prems assms by simp
    ultimately obtain ys where ys: "windows_from (real_of_int (s + h)) (length xs) (2 * h) = Some ys"
      and cnt: "int (length (filter (full_length xs (2 * h)) ys)) =
       (if s + h + 2 * h \<le> int (length xs) then (int (length xs) - (s + h) - 2 * h) div h + 1 else 0)"
      using less.hyps[of "s + h"] by auto
    have e: "py_int (real_of_int s + real_of_int (2 * h)) = s + 2 * h"
      using py_int_of_int[of "s + 2 * h"] by simp
    have step: "windows_from (real_of_int s) (length xs) (2 * h) = Some ((s, s + 2 * h) # ys)"
      unfolding windows_from_step[OF lt] nxt ys
      using e by simp
    have fl: "full_length xs (2 * h) (s, s + 2 * h) \<longleftrightarrow> s + 2 * h \<le> int (length xs)"
      using full_length_iff[of s xs "2 * h"] less.prems True assms by simp
    have len: "int (length (filter (full_length xs (2 * h)) ((s, s + 2 * h) # ys))) =
        (if s + 2 * h \<le> int (length xs) then 1 else 0) +
        int (length (filter (full_length xs (2 * h)) ys))"
      using fl by simp
    have arith: "(if s + 2 * h \<le> int (length xs) then 1 else 0) +
        (if s + h + 2 * h \<le> int (length xs)
         then (int (length xs) - (s + h) - 2 * h) div h + 1 else 0) =
        (if s + 2 * h \<le> int (length xs) then (int (length xs) - s - 2 * h) div h + 1 else 0)"
    proof (cases "s + 2 * h \<le> int (length xs)")
      case False
      then have "\<not> s + h + 2 * h \<le> int (length xs)"
        using assms by simp
      with False show ?thesis
        by simp
    next
      case a: True
      show ?thesis
      proof (cases "s + h + 2 * h \<le> int (length xs)")
        case True
        have "int (length xs) - s - 2 * h = (int (length xs) - (s + h) - 2 * h) + h"
          by (simp add: algebra_simps)
        then have "(int (length xs) - s - 2 * h) div h =
            ((int (length xs) - (s + h) - 2 * h) + h) div h"
          by (rule arg_cong)
        also have "\<dots> = (int (length xs) - (s + h) - 2 * h) div h + 1"
          by (rule int_div_step[OF assms])
        finally have "(int (length xs) - s - 2 * h) div h =
            (int (length xs) - (s + h) - 2 * h) div h + 1" .
        then show ?thesis
          using a True by (simp only: if_True)
      next
        case False
        then have "(int (length xs) - s - 2 * h) div h = 0"
          using a assms by (simp add: div_pos_pos_trivial)
        with a False show ?thesis
          by simp
      qed
    qed
    have "int (length (filter (full_length xs (2 * h)) ((s, s + 2 * h) # ys))) =
        (if s + 2 * h \<le> int (length xs) then (int (length xs) - s - 2 * h) div h + 1 else 0)"
      unfolding len cnt by (rule arith)
    with step show ?thesis
      by blast
  qed
qed

lemma windows_eval_4_3: "windows [0, 0, 0, 0 :: real] 3 = Some [(0, 3), (1, 4), (3, 6)]"
  by (simp add: windows_def windows_from.simps py_int_def)

lemma kept_windows_in_bounds:
  assumes "0 < window_size"
    and "kept_windows data window_size = Some kept"
  shows "\<forall>p\<in>set kept. 0 \<le> fst p \<and> snd p = fst p + window_size \<and> snd p \<le> int (length data)"
proof -
  from assms(2) obtain ys where ys: "windows_from 0 (length data) window_size = Some ys"
    and kept: "kept = filter (full_length data window_size) ys"
    by (auto simp: kept_windows_def windows_def)
  from windows_from_pairs[OF ys] assms(1)
  have p: "\<forall>p\<in>set ys. 0 \<le> fst p \<and> fst p < int (length data) \<and> snd p = fst p + window_size"
    by simp
  show ?thesis
  proof
    fix p assume "p \<in> set kept"
    then have in_ys: "p \<in> set ys" and fl: "full_length data window_size p"
      by (simp_all add: kept)
    from p in_ys have a: "0 \<le> fst p" "fst p < int (length data)" "snd p = fst p + window_size"
      by auto
    from fl a(3) have "full_length data window_size (fst p, fst p + window_size)"
      by (metis prod.collapse)
    with full_length_iff[OF a(1) a(2) assms(1)] a
    show "0 \<le> fst p \<and> snd p = fst p + window_size \<and> snd p \<le> int (length data)"
      by simp
  qed
qed

subsection \<open>Termination of the generator\<close>

text \<open>
  Claim C8, as amended. For every sequence and every window size greater than zero the
  window generator yields a finite sequence of pairs: the loop ends, and every pair it
  yielded was yielded while \<open>start\<close> was still below the length of the sequence.
\<close>

theorem windows_terminates:
  assumes "0 < window_size"
  shows "\<exists>ys. windows data window_size = Some ys \<and> (\<forall>p\<in>set ys. fst p < int (length data))"
proof -
  obtain ys where ys: "windows_from 0 (length data) window_size = Some ys"
    using windows_from_total[OF assms] by blast
  from windows_from_pairs[OF ys] assms
  have "\<forall>p\<in>set ys. fst p < int (length data)"
    by simp
  with ys show ?thesis
    by (simp add: windows_def)
qed

theorem windows_terminates_witness:
  "(0 :: int) < 3 \<and>
   (\<exists>ys. windows [0, 0, 0, 0 :: real] 3 = Some ys \<and>
      (\<forall>p\<in>set ys. fst p < int (length [0, 0, 0, 0 :: real])))"
  using windows_terminates[of 3 "[0, 0, 0, 0 :: real]"] by simp

text \<open>
  Claim C8 as it is written covers every window size. With a window size of zero, which
  \<open>extract_features\<close> passes when \<open>frames = 1\<close>, the step is zero and the loop over a
  sequence of one sample never ends.
\<close>

theorem windows_zero_size_counterexample:
  "windows [0 :: real] 0 = None"
  using windows_from_diverges[of 0 0 "Suc 0"] by (simp add: windows_def)

subsection \<open>The first pair and the bounds\<close>

text \<open>
  Claim C10. For a sequence that is not empty and a window size greater than zero, the
  first pair of the generator is \<open>(0, window_size)\<close>, whatever the length of the
  sequence: the generator does not compare the end of a pair with the length. The bound
  is enforced by the caller's test alone: every pair that passes it ends within the
  sequence, and when the window is longer than the sequence the first pair does not pass.
\<close>

theorem windows_first_pair:
  assumes "data \<noteq> []" and "0 < window_size"
  shows "\<exists>rest kept.
      windows data window_size = Some ((0, window_size) # rest) \<and>
      kept_windows data window_size = Some kept \<and>
      (\<forall>p\<in>set kept. snd p \<le> int (length data)) \<and>
      (int (length data) < window_size \<longrightarrow> (0, window_size) \<notin> set kept)"
proof -
  have lt: "(0 :: real) < real (length data)"
    using assms(1) by simp
  obtain rest where rest:
    "windows_from (0 + real_of_int window_size / 2) (length data) window_size = Some rest"
    using windows_from_total[OF assms(2)] by blast
  have w: "windows data window_size = Some ((0, window_size) # rest)"
    unfolding windows_def windows_from_step[OF lt] rest by simp
  then obtain kept where kept: "kept_windows data window_size = Some kept"
    by (simp add: kept_windows_def)
  from kept_windows_in_bounds[OF assms(2) kept]
  have b: "\<forall>p\<in>set kept. snd p \<le> int (length data)"
    by blast
  then have "int (length data) < window_size \<longrightarrow> (0, window_size) \<notin> set kept"
    by fastforce
  with w kept b show ?thesis
    by blast
qed

theorem windows_first_pair_witness:
  "[0 :: real] \<noteq> [] \<and> (0 :: int) < 4 \<and>
   (\<exists>rest kept.
      windows [0 :: real] 4 = Some ((0, 4) # rest) \<and>
      kept_windows [0 :: real] 4 = Some kept \<and>
      (\<forall>p\<in>set kept. snd p \<le> int (length [0 :: real])) \<and>
      (int (length [0 :: real]) < 4 \<longrightarrow> (0, 4) \<notin> set kept))"
  using windows_first_pair[of "[0 :: real]" 4] by simp

subsection \<open>The number of full windows\<close>

text \<open>
  Claim C3, as amended. For every sequence of length \<open>L\<close> and every even window size
  greater than zero (the caller's \<open>512 * (frames - 1)\<close> is always even), the number of
  windows that pass the caller's full-length test is
  \<open>floor ((L - window_size) / (window_size / 2)) + 1\<close> when \<open>L \<ge> window_size\<close>, and zero
  otherwise.
\<close>

theorem kept_window_count:
  assumes "0 < window_size" and "even window_size"
  shows "\<exists>kept. kept_windows data window_size = Some kept \<and>
     int (length kept) =
       (if window_size \<le> int (length data)
        then \<lfloor>(real (length data) - real_of_int window_size) / (real_of_int window_size / 2)\<rfloor> + 1
        else 0)"
proof -
  from assms(2) obtain h where h: "window_size = 2 * h"
    by (elim evenE)
  with assms(1) have hpos: "0 < h"
    by simp
  from kept_count_even[OF hpos, of 0 data] obtain ys
    where ys: "windows_from 0 (length data) (2 * h) = Some ys"
      and cnt: "int (length (filter (full_length data (2 * h)) ys)) =
        (if 0 + 2 * h \<le> int (length data) then (int (length data) - 0 - 2 * h) div h + 1 else 0)"
    by auto
  have "(real (length data) - real_of_int (2 * h)) / (real_of_int (2 * h) / 2) =
      real_of_int (int (length data) - 2 * h) / real_of_int h"
    by simp
  then have "\<lfloor>(real (length data) - real_of_int (2 * h)) / (real_of_int (2 * h) / 2)\<rfloor> =
      (int (length data) - 2 * h) div h"
    by (simp only: floor_divide_of_int_eq)
  with cnt have "int (length (filter (full_length data (2 * h)) ys)) =
       (if 2 * h \<le> int (length data)
        then \<lfloor>(real (length data) - real_of_int (2 * h)) / (real_of_int (2 * h) / 2)\<rfloor> + 1
        else 0)"
    by simp
  with ys show ?thesis
    unfolding h by (simp add: kept_windows_def windows_def)
qed

theorem kept_window_count_witness:
  "(0 :: int) < 4 \<and> even (4 :: int) \<and>
   (\<exists>kept. kept_windows [0, 0, 0, 0, 0, 0, 0 :: real] 4 = Some kept \<and>
      int (length kept) = 2)"
  using kept_window_count[of 4 "[0, 0, 0, 0, 0, 0, 0 :: real]"] by simp

text \<open>
  Claim C3 as it is written covers every window size greater than zero. With the odd
  window size 3 the starts are the truncated half-integers 0, 1, 3, 4, 6: on a sequence
  of 7 samples four windows are full, where the formula gives 3 (and 5 when its
  \<open>window_size / 2\<close> is read as an integer division).
\<close>

theorem window_count_odd_counterexample:
  "map_option length (kept_windows [0, 0, 0, 0, 0, 0, 0 :: real] 3) = Some 4 \<and>
   \<lfloor>(7 - 3) / (3 / 2 :: real)\<rfloor> + 1 = (3 :: int) \<and>
   (7 - 3) div (3 div 2) + 1 = (5 :: int)"
  by (simp add: kept_windows_def windows_def windows_from.simps py_int_def full_length_def
      py_slice_def slice_index_def)

section \<open>Properties of the signal normalizer\<close>

lemma exact_numpy_simps [simp]:
  "np_mean exact_numpy = exact_mean"
  "np_std exact_numpy = exact_std"
  "np_subtract exact_numpy = exact_subtract"
  "np_divide exact_numpy = exact_divide"
  by (simp_all add: exact_numpy_def)

text \<open>
  Claim C5, as amended. For every sequence of samples whose standard deviation, as numpy
  computes it, is zero, the signal normalizer raises no error: it returns a value, a
  sequence of the same length as the input, each entry the quotient by zero of a sample
  less the mean. This holds whatever the arithmetic.
\<close>

theorem feature_normalize_degenerate:
  assumes "np_std np dataset = Fin 0"
  shows "\<exists>ys. feature_normalize np dataset = Inr ys \<and> length ys = length dataset \<and>
     ys = map (\<lambda>x. np_divide np (np_subtract np x (np_mean np dataset)) (Fin 0)) dataset"
  using assms by (simp add: feature_normalize_def Let_def)

theorem feature_normalize_degenerate_witness:
  "np_std exact_numpy [Fin 2, Fin 2, Fin 2, Fin 2] = Fin 0 \<and>
   feature_normalize exact_numpy [Fin 2, Fin 2, Fin 2, Fin 2] = Inr [NaN, NaN, NaN, NaN]"
proof -
  have h: "np_std exact_numpy [Fin 2, Fin 2, Fin 2, Fin 2] = Fin 0"
    by (simp add: exact_std_def exact_mean_def)
  have m: "exact_mean [Fin 2, Fin 2, Fin 2, Fin 2] = Fin 2"
    by (simp add: exact_mean_def)
  from feature_normalize_degenerate[OF h] h show ?thesis
    by (simp add: m)
qed

text \<open>
  Claim C5 as it is written asks for \<open>DegenerateSignalError\<close>. The function has no
  test of \<open>sigma\<close> and no \<^verbatim>\<open>raise\<close>: on the constant sequence \<open>[1, 1]\<close> the
  mean is 1, the standard deviation is zero, and the value \<open>[nan, nan]\<close> is returned.
\<close>

theorem feature_normalize_constant_counterexample:
  "np_std exact_numpy [Fin 1, Fin 1] = Fin 0 \<and>
   feature_normalize exact_numpy [Fin 1, Fin 1] = Inr [NaN, NaN] \<and>
   feature_normalize exact_numpy [Fin 1, Fin 1] \<noteq> Inl DegenerateSignalError"
  by (simp add: feature_normalize_def exact_std_def exact_mean_def)

section \<open>Properties of the training loop\<close>

lemma py_slice_nonneg:
  assumes "0 \<le> start" and "0 \<le> stop"
  shows "py_slice xs start stop =
     take (min (nat stop) (length xs) - min (nat start) (length xs))
       (drop (min (nat start) (length xs)) xs)"
  using assms by (simp add: py_slice_def slice_index_def Let_def)

lemma select_batch_ok:
  assumes "int n_labels \<noteq> bsize"
  shows "\<exists>b. select_batch X_train y_train n_labels bsize itr = Inr b"
  using assms by (simp add: select_batch_def batch_offset_def)

lemma train_loop_append:
  "train_loop step X_train y_train n_labels bsize (as @ bs) params =
     (case train_loop step X_train y_train n_labels bsize as params of
        Inl e \<Rightarrow> Inl e
      | Inr p \<Rightarrow> train_loop step X_train y_train n_labels bsize bs p)"
  by (induction as arbitrary: params) (simp_all split: sum.splits)

lemma train_loop_error_is_steps:
  assumes "int n_labels \<noteq> bsize"
  shows "train_loop step X_train y_train n_labels bsize itrs params = Inl e \<Longrightarrow>
     \<exists>p bx by. step p bx by = Inl e"
proof (induction itrs arbitrary: params)
  case Nil
  then show ?case by simp
next
  case (Cons itr itrs)
  from select_batch_ok[OF assms] obtain b
    where b: "select_batch X_train y_train n_labels bsize itr = Inr b"
    by blast
  show ?case
  proof (cases "step params (fst b) (snd b)")
    case (Inl e')
    with Cons.prems b have "e' = e" by simp
    with Inl show ?thesis by blast
  next
    case (Inr p')
    with Cons.prems b
    have "train_loop step X_train y_train n_labels bsize itrs p' = Inl e" by simp
    then show ?thesis by (rule Cons.IH)
  qed
qed

lemma slice_last_one:
  assumes "length xs = 96"
  shows "py_slice xs 95 100 = [xs ! 95]"
proof -
  have "py_slice xs 95 100 = take 1 (drop 95 xs)"
    using assms by (simp add: py_slice_nonneg)
  also have "drop 95 xs = xs ! 95 # drop 96 xs"
    using assms Cons_nth_drop_Suc[of 95 xs] by simp
  finally show ?thesis
    by simp
qed

lemma slice_past_end:
  assumes "length xs = 96"
  shows "py_slice xs 100 105 = []"
  using assms by (simp add: py_slice_nonneg)

lemma iterations_split_19:
  "map int [0..<training_iters] = map int [0..<19] @ [19] @ map int [20..<training_iters]"
proof -
  have "[0..<training_iters] = [0..<19] @ [19..<training_iters]"
    using upt_add_eq_append[of 0 19 281] by (simp add: training_iters_def)
  also have "[19..<training_iters] = 19 # [20..<training_iters]"
    using upt_conv_Cons[of 19 training_iters] by (simp add: training_iters_def)
  finally show ?thesis
    by simp
qed

text \<open>
  Claim C9. In the configuration of the notebook (a corpus of 120 examples, a training
  split of 96, batches of 5, 300 iterations) the offset is taken modulo \<open>120 - 5\<close>,
  the size of the whole corpus less the batch size. At iteration 19 it is 95, beyond
  \<open>96 - 5\<close>, and the batch holds fewer than 5 examples; at iteration 20 the batch is
  empty. The loop hands these batches to the optimizer step as they are: one iteration
  of the loop at 19 is the step on the short batch, at 20 the step on the empty batch, and
  the training run is the run of iterations 0 to 18, then the step on the short batch,
  then the remaining iterations. The loop raises nothing of its own: an error of the run
  is an error of a step.
\<close>

theorem short_batch_reference:
  assumes "length X_train = 96" and "length y_train = 96"
  shows "\<exists>itr offset.
      0 \<le> itr \<and> itr < int training_iters \<and>
      batch_offset 120 batch_size itr = Inr offset \<and>
      int (length X_train) - batch_size < offset \<and>
      (\<exists>batch_x batch_y.
         select_batch X_train y_train 120 batch_size itr = Inr (batch_x, batch_y) \<and>
         int (length batch_x) < batch_size \<and> int (length batch_y) < batch_size \<and>
         (\<forall>step params.
            train_loop step X_train y_train 120 batch_size [itr] params =
              step params batch_x batch_y) \<and>
         (\<forall>step params.
            train step X_train y_train 120 batch_size training_iters params =
              (case train_loop step X_train y_train 120 batch_size
                      (map int [0..<nat itr]) params of
                 Inl e \<Rightarrow> Inl e
               | Inr p \<Rightarrow>
                   (case step p batch_x batch_y of
                      Inl e \<Rightarrow> Inl e
                    | Inr p' \<Rightarrow>
                        train_loop step X_train y_train 120 batch_size
                          (map int [Suc (nat itr)..<training_iters]) p')))) \<and>
      select_batch X_train y_train 120 batch_size (itr + 1) = Inr ([], []) \<and>
      (\<forall>step params.
         train_loop step X_train y_train 120 batch_size [itr + 1] params = step params [] []) \<and>
      (\<forall>step params e.
         train step X_train y_train 120 batch_size training_iters params = Inl e \<longrightarrow>
         (\<exists>p bx by. step p bx by = Inl e))"
proof -
  let ?bx = "[X_train ! 95]" and ?by = "[y_train ! 95]"
  have o19: "batch_offset 120 batch_size 19 = Inr 95"
    by (simp add: batch_offset_def batch_size_def)
  have o20: "batch_offset 120 batch_size 20 = Inr 100"
    by (simp add: batch_offset_def batch_size_def)
  have b19: "select_batch X_train y_train 120 batch_size 19 = Inr (?bx, ?by)"
    using slice_last_one[OF assms(1)] slice_last_one[OF assms(2)]
    by (simp add: select_batch_def o19) (simp add: batch_size_def)
  have b20: "select_batch X_train y_train 120 batch_size (19 + 1) = Inr ([], [])"
    using slice_past_end[OF assms(1)] slice_past_end[OF assms(2)]
    by (simp add: select_batch_def o20) (simp add: batch_size_def)
  have ne: "int 120 \<noteq> batch_size"
    by (simp add: batch_size_def)
  have range: "0 \<le> (19 :: int) \<and> 19 < int training_iters"
    by (simp add: training_iters_def)
  have beyond: "int (length X_train) - batch_size < 95"
    using assms(1) by (simp add: batch_size_def)
  have short: "int (length ?bx) < batch_size \<and> int (length ?by) < batch_size"
    by (simp add: batch_size_def)
  have one: "\<forall>step params.
      train_loop step X_train y_train 120 batch_size [19] params = step params ?bx ?by"
    by (simp add: b19 split: sum.splits)
  have empty: "\<forall>step params.
      train_loop step X_train y_train 120 batch_size [19 + 1] params = step params [] []"
    by (simp only: train_loop.simps b20) (simp split: sum.splits)
  have run: "\<forall>step params.
      train step X_train y_train 120 batch_size training_iters params =
        (case train_loop step X_train y_train 120 batch_size (map int [0..<nat 19]) params of
           Inl e \<Rightarrow> Inl e
         | Inr p \<Rightarrow>
             (case step p ?bx ?by of
                Inl e \<Rightarrow> Inl e
              | Inr p' \<Rightarrow>
                  train_loop step X_train y_train 120 batch_size
                    (map int [Suc (nat 19)..<training_iters]) p'))"
  proof (intro allI)
    fix step params
    have n: "nat 19 = 19" "Suc 19 = 20"
      by simp_all
    show "train step X_train y_train 120 batch_size training_iters params =
        (case train_loop step X_train y_train 120 batch_size (map int [0..<nat 19]) params of
           Inl e \<Rightarrow> Inl e
         | Inr p \<Rightarrow>
             (case step p ?bx ?by of
                Inl e \<Rightarrow> Inl e
              | Inr p' \<Rightarrow>
                  train_loop step X_train y_train 120 batch_size
                    (map int [Suc (nat 19)..<training_iters]) p'))"
      unfolding train_def iterations_split_19 train_loop_append n
      by (simp add: b19 split: sum.splits)
  qed
  have err: "\<forall>step params e.
      train step X_train y_train 120 batch_size training_iters params = Inl e \<longrightarrow>
      (\<exists>p bx by. step p bx by = Inl e)"
    unfolding train_def by (intro allI impI) (rule train_loop_error_is_steps[OF ne])
  from range o19 beyond b19 short one run b20 empty err show ?thesis
    by blast
qed

theorem short_batch_reference_witness:
  "length (replicate 96 (0 :: nat)) = 96 \<and> length (replicate 96 (1 :: nat)) = 96 \<and>
   (\<exists>itr offset.
      0 \<le> itr \<and> itr < int training_iters \<and>
      batch_offset 120 batch_size itr = Inr offset \<and>
      int (length (replicate 96 (0 :: nat))) - batch_size < offset \<and>
      (\<exists>batch_x batch_y.
         select_batch (replicate 96 (0 :: nat)) (replicate 96 (1 :: nat)) 120 batch_size itr =
           Inr (batch_x, batch_y) \<and>
         int (length batch_x) < batch_size \<and> int (length batch_y) < batch_size \<and>
         train_loop (\<lambda>p bx by. Inr (p + length bx)) (replicate 96 (0 :: nat))
             (replicate 96 (1 :: nat)) 120 batch_size [itr] (0 :: nat) =
           Inr (length batch_x)) \<and>
      select_batch (replicate 96 (0 :: nat)) (replicate 96 (1 :: nat)) 120 batch_size (itr + 1) =
        Inr ([], []) \<and>
      train_loop (\<lambda>p bx by. Inr (p + length bx)) (replicate 96 (0 :: nat))
          (replicate 96 (1 :: nat)) 120 batch_size [itr + 1] (7 :: nat) = Inr 7)"
proof -
  let ?X = "replicate 96 (0 :: nat)" and ?Y = "replicate 96 (1 :: nat)"
  let ?step = "\<lambda>(p :: nat) (bx :: nat list) (by :: nat list). (Inr (p + length bx) :: py_error + nat)"
  have h1: "length ?X = 96"
    by simp
  have h2: "length ?Y = 96"
    by simp
  from short_batch_reference[OF h1 h2] obtain itr offset where
    r: "0 \<le> itr \<and> itr < int training_iters \<and>
      batch_offset 120 batch_size itr = Inr offset \<and>
      int (length ?X) - batch_size < offset \<and>
      (\<exists>batch_x batch_y.
         select_batch ?X ?Y 120 batch_size itr = Inr (batch_x, batch_y) \<and>
         int (length batch_x) < batch_size \<and> int (length batch_y) < batch_size \<and>
         (\<forall>(step :: nat \<Rightarrow> nat list \<Rightarrow> nat list \<Rightarrow> py_error + nat) params.
            train_loop step ?X ?Y 120 batch_size [itr] params = step params batch_x batch_y) \<and>
         (\<forall>(step :: nat \<Rightarrow> nat list \<Rightarrow> nat list \<Rightarrow> py_error + nat) params.
            train step ?X ?Y 120 batch_size training_iters params =
              (case train_loop step ?X ?Y 120 batch_size (map int [0..<nat itr]) params of
                 Inl e \<Rightarrow> Inl e
               | Inr p \<Rightarrow>
                   (case step p batch_x batch_y of
                      Inl e \<Rightarrow> Inl e
                    | Inr p' \<Rightarrow>
                        train_loop step ?X ?Y 120 batch_size
                          (map int [Suc (nat itr)..<training_iters]) p')))) \<and>
      select_batch ?X ?Y 120 batch_size (itr + 1) = Inr ([], []) \<and>
      (\<forall>(step :: nat \<Rightarrow> nat list \<Rightarrow> nat list \<Rightarrow> py_error + nat) params.
         train_loop step ?X ?Y 120 batch_size [itr + 1] params = step params [] []) \<and>
      (\<forall>(step :: nat \<Rightarrow> nat list \<Rightarrow> nat list \<Rightarrow> py_error + nat) params e.
         train step ?X ?Y 120 batch_size training_iters params = Inl e \<longrightarrow>
         (\<exists>p bx by. step p bx by = Inl e))"
    by (elim exE) (rule that)
  then obtain batch_x batch_y where
    b: "select_batch ?X ?Y 120 batch_size itr = Inr (batch_x, batch_y)"
      "int (length batch_x) < batch_size" "int (length batch_y) < batch_size"
    and one: "\<forall>(step :: nat \<Rightarrow> nat list \<Rightarrow> nat list \<Rightarrow> py_error + nat) params.
      train_loop step ?X ?Y 120 batch_size [itr] params = step params batch_x batch_y"
    by (elim conjE exE) (rule that)
  from r have empty: "\<forall>(step :: nat \<Rightarrow> nat list \<Rightarrow> nat list \<Rightarrow> py_error + nat) params.
      train_loop step ?X ?Y 120 batch_size [itr + 1] params = step params [] []"
    by (elim conjE)
  have t1: "train_loop ?step ?X ?Y 120 batch_size [itr] 0 = Inr (length batch_x)"
    by (simp only: spec[OF spec[OF one]]) simp
  have t2: "train_loop ?step ?X ?Y 120 batch_size [itr + 1] 7 = Inr 7"
    by (simp only: spec[OF spec[OF empty]]) simp
  from r b t1 t2 h1 h2 show ?thesis
    by (intro conjI exI[of _ itr] exI[of _ offset] exI[of _ batch_x] exI[of _ batch_y])
      (simp_all only: simp_thms)
qed

text \<open>
  Claim C2 says that every batch is \<open>batch_size\<close> consecutive examples of the training
  split, the offset wrapping within the split. The code wraps at the size of the whole
  corpus instead: with the training split \<open>[0, \<dots>, 95]\<close> of a corpus of 120, the batch
  of iteration 19 is the single example 95 and the batch of iteration 20 is empty.
\<close>

theorem training_batch_short_at_19:
  "select_batch [0..<96] [0..<96] 120 5 19 = Inr ([95], [95]) \<and>
   select_batch [0..<96] [0..<96] 120 5 20 = Inr ([], [])"
proof -
  have l: "length [0..<96] = 96"
    by simp
  have "py_slice [0..<96] 95 100 = [95]"
    using slice_last_one[OF l] by simp
  moreover have "py_slice [0..<96] 100 105 = []"
    using slice_past_end[OF l] by simp
  ultimately show ?thesis
    by (simp add: select_batch_def batch_offset_def)
qed

section \<open>Properties of the label encoding\<close>

text \<open>
  Claim C1 says that a class name has the same index in the one-hot encoding of training
  and in the list \<open>LABELS\<close> of inference. The columns of the encoding are the sorted
  class names, \<open>new, red, used\<close>, while \<open>LABELS\<close> is \<open>new, used, red\<close>: the
  fifth training recording is tagged \<open>red\<close>, its one-hot row has its 1 at index 1, and
  index 1 of \<open>LABELS\<close> is \<open>used\<close>. A recording whose one window is predicted
  exactly as that row is reported as \<open>used\<close>.
\<close>

theorem one_hot_order_differs_from_LABELS:
  "get_dummies_columns sound_names = [''new'', ''red'', ''used''] \<and>
   one_hot_encode sound_names =
     [[1, 0, 0], [1, 0, 0], [0, 0, 1], [0, 0, 1], [0, 1, 0], [0, 1, 0]] \<and>
   sound_names ! 4 = ''red'' \<and>
   argmax_row (one_hot_encode sound_names ! 4) = 1 \<and>
   LABELS ! 1 = ''used'' \<and>
   predict_recording [one_hot_encode sound_names ! 4] = Inr (''used'', 1)"
  by (simp add: get_dummies_columns_def one_hot_encode_def sound_names_def LABELS_def
      predict_recording_def np_argmax_def stats_mode_def mode_step_def)

section \<open>Properties of the inference aggregator\<close>

lemma mode_fold_invariant:
  assumes "sorted ss" and "distinct ss"
  shows "(\<forall>s\<in>set ss. count_list a s \<le> snd (foldl (mode_step a) (0, 0) ss)) \<and>
     (snd (foldl (mode_step a) (0, 0) ss) = 0 \<or>
      (fst (foldl (mode_step a) (0, 0) ss) \<in> set ss \<and>
       count_list a (fst (foldl (mode_step a) (0, 0) ss)) = snd (foldl (mode_step a) (0, 0) ss) \<and>
       (\<forall>s\<in>set ss. count_list a s = snd (foldl (mode_step a) (0, 0) ss) \<longrightarrow>
          fst (foldl (mode_step a) (0, 0) ss) \<le> s)))"
  using assms
proof (induction ss rule: rev_induct)
  case Nil
  show ?case by simp
next
  case (snoc x ss)
  let ?st = "foldl (mode_step a) (0, 0) ss"
  from snoc.prems have srt: "sorted ss" and le: "\<forall>s\<in>set ss. s \<le> x" and dist: "distinct ss"
    by (auto simp: sorted_append)
  note IH = snoc.IH[OF srt dist]
  have step: "foldl (mode_step a) (0, 0) (ss @ [x]) = mode_step a ?st x"
    by simp
  show ?case
  proof (cases "snd ?st < count_list a x")
    case True
    then have new: "mode_step a ?st x = (x, count_list a x)"
      by (simp add: mode_step_def Let_def max_def)
    from IH True have "\<forall>s\<in>set ss. count_list a s < count_list a x"
      by fastforce
    then show ?thesis
      unfolding step new using True by fastforce
  next
    case False
    then have new: "mode_step a ?st x = ?st"
      by (simp add: mode_step_def Let_def max_def prod_eq_iff)
    show ?thesis
      unfolding step new using IH False le by fastforce
  qed
qed

lemma stats_mode_spec:
  assumes "a \<noteq> []"
  shows "fst (stats_mode a) \<in> set a"
    and "snd (stats_mode a) = count_list a (fst (stats_mode a))"
    and "count_list a v \<le> snd (stats_mode a)"
    and "count_list a v = snd (stats_mode a) \<Longrightarrow> fst (stats_mode a) \<le> v"
proof -
  let ?ss = "sort (remdups a)"
  have set: "set ?ss = set a" and "sorted ?ss" and "distinct ?ss"
    by simp_all
  from mode_fold_invariant[OF \<open>sorted ?ss\<close> \<open>distinct ?ss\<close>, of a]
  have all: "\<forall>s\<in>set a. count_list a s \<le> snd (stats_mode a)"
    and alt: "snd (stats_mode a) = 0 \<or>
      (fst (stats_mode a) \<in> set a \<and>
       count_list a (fst (stats_mode a)) = snd (stats_mode a) \<and>
       (\<forall>s\<in>set a. count_list a s = snd (stats_mode a) \<longrightarrow> fst (stats_mode a) \<le> s))"
    unfolding stats_mode_def set by blast+
  from assms obtain x where x: "x \<in> set a"
    by (cases a) auto
  then have "count_list a x \<noteq> 0"
    by (simp add: count_list_0_iff)
  then have "0 < count_list a x"
    by simp
  with all x have pos: "0 < snd (stats_mode a)"
    by fastforce
  with alt have m: "fst (stats_mode a) \<in> set a"
    and c: "count_list a (fst (stats_mode a)) = snd (stats_mode a)"
    and least: "\<forall>s\<in>set a. count_list a s = snd (stats_mode a) \<longrightarrow> fst (stats_mode a) \<le> s"
    by auto
  show "fst (stats_mode a) \<in> set a" by (rule m)
  show "snd (stats_mode a) = count_list a (fst (stats_mode a))" using c by simp
  show "count_list a v \<le> snd (stats_mode a)"
  proof (cases "v \<in> set a")
    case True with all show ?thesis by blast
  next
    case False then show ?thesis by (simp add: count_list_0_iff)
  qed
  show "fst (stats_mode a) \<le> v" if "count_list a v = snd (stats_mode a)"
  proof -
    from that pos have "v \<in> set a"
      by (metis count_list_0_iff less_numeral_extra(3))
    with least that show ?thesis by blast
  qed
qed

text \<open>\<open>argmax_row\<close> is the first position of the largest entry of a row.\<close>

lemma argmax_scan_first_max:
  assumes "best < length pre" and "i = length pre" and "bv = pre ! best"
    and "\<forall>x\<in>set pre. x \<le> bv" and "\<forall>j<best. pre ! j < bv"
  shows "argmax_scan best bv i xs < length (pre @ xs) \<and>
     (\<forall>x\<in>set (pre @ xs). x \<le> (pre @ xs) ! argmax_scan best bv i xs) \<and>
     (\<forall>j<argmax_scan best bv i xs. (pre @ xs) ! j < (pre @ xs) ! argmax_scan best bv i xs)"
  using assms
proof (induction xs arbitrary: best bv i pre)
  case Nil
  then show ?case by simp
next
  case (Cons x xs)
  show ?case
  proof (cases "bv < x")
    case True
    have "argmax_scan i x (Suc i) xs < length ((pre @ [x]) @ xs) \<and>
     (\<forall>y\<in>set ((pre @ [x]) @ xs). y \<le> ((pre @ [x]) @ xs) ! argmax_scan i x (Suc i) xs) \<and>
     (\<forall>j<argmax_scan i x (Suc i) xs.
        ((pre @ [x]) @ xs) ! j < ((pre @ [x]) @ xs) ! argmax_scan i x (Suc i) xs)"
    proof (rule Cons.IH)
      show "i < length (pre @ [x])" using Cons.prems(2) by simp
      show "Suc i = length (pre @ [x])" using Cons.prems(2) by simp
      show "x = (pre @ [x]) ! i" using Cons.prems(2) by simp
      show "\<forall>y\<in>set (pre @ [x]). y \<le> x" using Cons.prems(4) True by auto
      show "\<forall>j<i. (pre @ [x]) ! j < x"
      proof (intro allI impI)
        fix j assume j: "j < i"
        then have "pre ! j \<in> set pre" using Cons.prems(2) by simp
        with Cons.prems(4) True have "pre ! j < x" by auto
        with j Cons.prems(2) show "(pre @ [x]) ! j < x" by (simp add: nth_append)
      qed
    qed
    with True show ?thesis by simp
  next
    case False
    have "argmax_scan best bv (Suc i) xs < length ((pre @ [x]) @ xs) \<and>
     (\<forall>y\<in>set ((pre @ [x]) @ xs). y \<le> ((pre @ [x]) @ xs) ! argmax_scan best bv (Suc i) xs) \<and>
     (\<forall>j<argmax_scan best bv (Suc i) xs.
        ((pre @ [x]) @ xs) ! j < ((pre @ [x]) @ xs) ! argmax_scan best bv (Suc i) xs)"
    proof (rule Cons.IH)
      show "best < length (pre @ [x])" using Cons.prems(1) by simp
      show "Suc i = length (pre @ [x])" using Cons.prems(2) by simp
      show "bv = (pre @ [x]) ! best" using Cons.prems(1,3) by (simp add: nth_append)
      show "\<forall>y\<in>set (pre @ [x]). y \<le> bv" using Cons.prems(4) False by auto
      show "\<forall>j<best. (pre @ [x]) ! j < bv"
        using Cons.prems(1,5) by (simp add: nth_append)
    qed
    with False show ?thesis by simp
  qed
qed

lemma argmax_row_first_max:
  assumes "row \<noteq> []"
  shows "argmax_row row < length row"
    and "\<forall>x\<in>set row. x \<le> row ! argmax_row row"
    and "\<forall>j<argmax_row row. row ! j < row ! argmax_row row"
proof -
  from assms obtain x xs where row: "row = x # xs"
    by (cases row) auto
  have "argmax_scan 0 x 1 xs < length ([x] @ xs) \<and>
     (\<forall>y\<in>set ([x] @ xs). y \<le> ([x] @ xs) ! argmax_scan 0 x 1 xs) \<and>
     (\<forall>j<argmax_scan 0 x 1 xs. ([x] @ xs) ! j < ([x] @ xs) ! argmax_scan 0 x 1 xs)"
    by (rule argmax_scan_first_max) simp_all
  then show "argmax_row row < length row"
    and "\<forall>x\<in>set row. x \<le> row ! argmax_row row"
    and "\<forall>j<argmax_row row. row ! j < row ! argmax_row row"
    by (simp_all add: row)
qed

lemma argmax_scan_bound: "best < i \<Longrightarrow> argmax_scan best bv i xs < i + length xs"
  by (induction best bv i xs rule: argmax_scan.induct) auto

lemma argmax_row_bound: "row \<noteq> [] \<Longrightarrow> argmax_row row < length row"
  using argmax_scan_bound[of 0 1] by (cases row) auto

text \<open>
  Claim C4. For every prediction batch that is not empty, with one probability for each
  of the three classes in every row, the inference aggregator returns the label at the
  index \<open>m\<close> that is the mode of the per-window argmax indices, the smallest index
  among those with the largest count, and the confidence \<open>c / N\<close> where \<open>c\<close> is the
  number of windows whose argmax is \<open>m\<close> and \<open>N\<close> the number of windows. The
  confidence lies between 0 and 1. Argmaxes \<open>[0,0,1,0,0]\<close> give class 0 with
  confidence 0.8 and the tie \<open>[0,0,1,1]\<close> gives class 0 with confidence 0.5.
\<close>

theorem predict_recording_mode:
  assumes "y_predicts \<noteq> []" and "\<forall>row\<in>set y_predicts. length row = n_classes"
  shows "(\<exists>m c. predict_recording y_predicts =
            Inr (LABELS ! m, real c / real (length y_predicts)) \<and>
          m < length LABELS \<and>
          c = count_list (map argmax_row y_predicts) m \<and>
          (\<forall>k. count_list (map argmax_row y_predicts) k \<le> c) \<and>
          (\<forall>k. count_list (map argmax_row y_predicts) k = c \<longrightarrow> m \<le> k) \<and>
          0 \<le> real c / real (length y_predicts) \<and>
          real c / real (length y_predicts) \<le> 1) \<and>
     stats_mode [0, 0, 1, 0, 0] = (0, 4) \<and>
     predict_recording [[1, 0, 0], [1, 0, 0], [0, 1, 0], [1, 0, 0], [1, 0, 0]] =
       Inr (LABELS ! 0, 8 / 10) \<and>
     stats_mode [0, 0, 1, 1] = (0, 2) \<and>
     predict_recording [[1, 0, 0], [1, 0, 0], [0, 1, 0], [0, 1, 0]] = Inr (LABELS ! 0, 5 / 10)"
proof -
  let ?am = "map argmax_row y_predicts"
  let ?m = "fst (stats_mode ?am)" and ?c = "snd (stats_mode ?am)"
  have rows: "[] \<notin> set y_predicts"
    using assms(2) by (auto simp: n_classes_def)
  then have am: "np_argmax y_predicts = Inr ?am"
    by (simp add: np_argmax_def)
  have ne: "?am \<noteq> []"
    using assms(1) by simp
  note spec = stats_mode_spec[OF ne]
  from spec(1) obtain row where row: "row \<in> set y_predicts" and m: "?m = argmax_row row"
    by auto
  from row assms(2) have len: "length row = 3"
    by (simp add: n_classes_def)
  then have "row \<noteq> []"
    by auto
  from argmax_row_bound[OF this] have bound: "?m < length LABELS"
    by (simp add: m len LABELS_def)
  have pr: "predict_recording y_predicts = Inr (LABELS ! ?m, real ?c / real (length y_predicts))"
    using bound ne by (simp add: predict_recording_def am Let_def)
  have "?c \<le> length ?am"
    unfolding spec(2) by (rule count_le_length)
  then have conf: "0 \<le> real ?c / real (length y_predicts) \<and> real ?c / real (length y_predicts) \<le> 1"
    using assms(1) by (simp add: divide_le_eq)
  have general: "\<exists>m c. predict_recording y_predicts =
            Inr (LABELS ! m, real c / real (length y_predicts)) \<and>
          m < length LABELS \<and>
          c = count_list (map argmax_row y_predicts) m \<and>
          (\<forall>k. count_list (map argmax_row y_predicts) k \<le> c) \<and>
          (\<forall>k. count_list (map argmax_row y_predicts) k = c \<longrightarrow> m \<le> k) \<and>
          0 \<le> real c / real (length y_predicts) \<and>
          real c / real (length y_predicts) \<le> 1"
    using pr bound spec(2) spec(3) spec(4) conf by blast
  have m1: "stats_mode [0, 0, 1, 0, 0] = (0, 4)"
    by (simp add: stats_mode_def mode_step_def)
  have m2: "stats_mode [0, 0, 1, 1] = (0, 2)"
    by (simp add: stats_mode_def mode_step_def)
  have e1: "predict_recording [[1, 0, 0], [1, 0, 0], [0, 1, 0], [1, 0, 0], [1, 0, 0]] =
       Inr (LABELS ! 0, 8 / 10)"
    by (simp add: predict_recording_def np_argmax_def stats_mode_def mode_step_def LABELS_def)
  have e2: "predict_recording [[1, 0, 0], [1, 0, 0], [0, 1, 0], [0, 1, 0]] = Inr (LABELS ! 0, 5 / 10)"
    by (simp add: predict_recording_def np_argmax_def stats_mode_def mode_step_def LABELS_def)
  from general m1 e1 m2 e2 show ?thesis
    by blast
qed

theorem predict_recording_mode_witness:
  "[[1, 0, 0], [0, 1, 0], [0, 1, 0 :: real]] \<noteq> [] \<and>
   map length [[1, 0, 0], [0, 1, 0], [0, 1, 0 :: real]] = [n_classes, n_classes, n_classes] \<and>
   (\<exists>m c. predict_recording [[1, 0, 0], [0, 1, 0], [0, 1, 0]] =
        Inr (LABELS ! m, real c / real (length [[1, 0, 0], [0, 1, 0], [0, 1, 0 :: real]])) \<and>
      m < length LABELS \<and>
      c = count_list (map argmax_row [[1, 0, 0], [0, 1, 0], [0, 1, 0 :: real]]) m \<and>
      (\<forall>k. count_list (map argmax_row [[1, 0, 0], [0, 1, 0], [0, 1, 0 :: real]]) k \<le> c) \<and>
      (\<forall>k. count_list (map argmax_row [[1, 0, 0], [0, 1, 0], [0, 1, 0 :: real]]) k = c
         \<longrightarrow> m \<le> k))"
proof -
  have h1: "[[1, 0, 0], [0, 1, 0], [0, 1, 0 :: real]] \<noteq> []"
    by simp
  have h2: "\<forall>row\<in>set [[1, 0, 0], [0, 1, 0], [0, 1, 0 :: real]]. length row = n_classes"
    by (simp add: n_classes_def)
  have h3: "map length [[1, 0, 0], [0, 1, 0], [0, 1, 0 :: real]] =
      [n_classes, n_classes, n_classes]"
    by (simp add: n_classes_def)
  from predict_recording_mode[OF h1 h2] h1 h3 show ?thesis
    by blast
qed

section \<open>Properties of the loss\<close>

lemma sum_list_concat_rows: "sum_list (concat t) = sum_list (map sum_list t)"
  by (induction t) simp_all

lemma reduce_sum_nth:
  "reduce_sum t = (\<Sum>i<length t. \<Sum>j<length (t ! i). t ! i ! j)"
proof -
  have "reduce_sum t = sum_list (map sum_list t)"
    by (simp add: reduce_sum_def sum_list_concat_rows)
  also have "\<dots> = (\<Sum>i<length t. sum_list (t ! i))"
    by (simp add: sum_list_sum_nth atLeast0LessThan)
  also have "\<dots> = (\<Sum>i<length t. \<Sum>j<length (t ! i). t ! i ! j)"
    by (simp add: sum_list_sum_nth atLeast0LessThan)
  finally show ?thesis .
qed

text \<open>
  Claim C7. For every batch of predictions and one-hot labels of the same shape, the
  training loss is minus the sum, over every example and every class of the batch, of the
  true label times the logarithm of the predicted probability. It is a sum, not a mean.
  (Arithmetic over the reals.)
\<close>

theorem loss_f_cross_entropy_sum:
  assumes "length y = length prediction"
    and "\<forall>i<length y. length (y ! i) = k \<and> length (prediction ! i) = k"
  shows "loss_f y prediction = cross_entropy_sum k y prediction"
proof -
  let ?t = "tf_multiply y (tf_log prediction)"
  have len: "length ?t = length y"
    using assms(1) by (simp add: tf_multiply_def tf_log_def)
  have row: "?t ! i = map2 (*) (y ! i) (map ln (prediction ! i))" if "i < length y" for i
    using that assms(1) by (simp add: tf_multiply_def tf_log_def)
  have rlen: "length (?t ! i) = k" if "i < length y" for i
    using that assms(2) by (simp add: row)
  have cell: "?t ! i ! j = (y ! i ! j) * ln (prediction ! i ! j)"
    if "i < length y" and "j < k" for i j
    using that assms(2) by (simp add: row)
  have "reduce_sum ?t = (\<Sum>i<length y. \<Sum>j<length (?t ! i). ?t ! i ! j)"
    unfolding reduce_sum_nth len ..
  also have "\<dots> = (\<Sum>i<length y. \<Sum>j<k. (y ! i ! j) * ln (prediction ! i ! j))"
    by (intro sum.cong refl) (simp_all add: rlen cell)
  finally show ?thesis
    by (simp add: loss_f_def cross_entropy_sum_def)
qed

theorem loss_f_cross_entropy_sum_witness:
  "length [[1, 0, 0], [0, 1, 0 :: real]] = length [[1/2, 1/4, 1/4], [1/4, 1/2, 1/4 :: real]] \<and>
   map length [[1, 0, 0], [0, 1, 0 :: real]] = [3, 3] \<and>
   map length [[1/2, 1/4, 1/4], [1/4, 1/2, 1/4 :: real]] = [3, 3] \<and>
   loss_f [[1, 0, 0], [0, 1, 0]] [[1/2, 1/4, 1/4], [1/4, 1/2, 1/4]] =
     cross_entropy_sum 3 [[1, 0, 0], [0, 1, 0]] [[1/2, 1/4, 1/4], [1/4, 1/2, 1/4]]"
proof -
  have h1: "length [[1, 0, 0], [0, 1, 0 :: real]] =
      length [[1/2, 1/4, 1/4], [1/4, 1/2, 1/4 :: real]]"
    by simp
  have h2: "\<forall>i<length [[1, 0, 0], [0, 1, 0 :: real]].
      length ([[1, 0, 0], [0, 1, 0 :: real]] ! i) = 3 \<and>
      length ([[1/2, 1/4, 1/4], [1/4, 1/2, 1/4 :: real]] ! i) = 3"
    by (auto simp: less_Suc_eq)
  have h3: "map length [[1, 0, 0], [0, 1, 0 :: real]] = [3, 3] \<and>
      map length [[1/2, 1/4, 1/4], [1/4, 1/2, 1/4 :: real]] = [3, 3]"
    by simp
  from loss_f_cross_entropy_sum[OF h1 h2] h1 h3 show ?thesis
    by blast
qed

section \<open>Properties of the feature extractor\<close>

lemma window_loop_stop:
  "\<not> start < real (length sound_clip) \<Longrightarrow>
   window_loop mfcc sound_clip s bands window_size start = Some (Inr [])"
  by (subst window_loop.simps) simp

lemma window_loop_skip:
  assumes "start < real (length sound_clip)"
    and "\<not> full_length sound_clip window_size
            (py_int start, py_int (start + real_of_int window_size))"
  shows "window_loop mfcc sound_clip s bands window_size start =
     window_loop mfcc sound_clip s bands window_size (start + real_of_int window_size / 2)"
  using assms by (subst window_loop.simps) simp

lemma window_loop_emit:
  assumes "start < real (length sound_clip)"
    and "full_length sound_clip window_size
            (py_int start, py_int (start + real_of_int window_size))"
  shows "window_loop mfcc sound_clip s bands window_size start =
     (case mfcc (py_slice sound_clip (py_int start)
                   (py_int (start + real_of_int window_size))) s bands of
        Inl e \<Rightarrow> Some (Inl e)
      | Inr m \<Rightarrow>
          Option.bind
            (window_loop mfcc sound_clip s bands window_size
               (start + real_of_int window_size / 2))
            (\<lambda>r. Some (case r of Inl e \<Rightarrow> Inl e | Inr ms \<Rightarrow> Inr (transpose_T m # ms))))"
  using assms by (subst window_loop.simps) simp

lemma windows_from_Nil:
  "windows_from start n window_size = Some [] \<Longrightarrow> \<not> start < real n"
  by (subst (asm) windows_from.simps) (auto split: if_splits simp: bind_eq_Some_conv)

lemma windows_from_Cons:
  assumes "windows_from start n window_size = Some (p # rest)"
  shows "start < real n"
    and "p = (py_int start, py_int (start + real_of_int window_size))"
    and "windows_from (start + real_of_int window_size / 2) n window_size = Some rest"
  using assms
  by (subst (asm) windows_from.simps; auto split: if_splits simp: bind_eq_Some_conv)+

lemma window_loop_of_windows:
  "windows_from start (length sound_clip) window_size = Some ps \<Longrightarrow>
   window_loop mfcc sound_clip s bands window_size start =
     Some (mfcc_of_pairs mfcc sound_clip s bands
             (filter (full_length sound_clip window_size) ps))"
proof (induction ps arbitrary: start)
  case Nil
  from windows_from_Nil[OF Nil] show ?case
    by (simp add: window_loop_stop)
next
  case (Cons p rest)
  note c = windows_from_Cons[OF Cons.prems]
  note IH = Cons.IH[OF c(3)]
  show ?case
  proof (cases "full_length sound_clip window_size p")
    case False
    with c(1) c(2) show ?thesis
      by (simp add: window_loop_skip IH)
  next
    case True
    with c(1) c(2) show ?thesis
      by (simp add: window_loop_emit IH split: sum.splits)
  qed
qed

lemma window_loop_shape:
  assumes "window_loop mfcc sound_clip s bands window_size start = Some r"
  shows "mfcc_shape mfcc \<longrightarrow> window_size = 512 * (frames - 1) \<longrightarrow>
     (\<forall>ms. r = Inr ms \<longrightarrow>
        (\<forall>w\<in>set ms. int (fst (shape w)) = frames \<and> snd (shape w) = bands))"
proof (induction rule: window_loop.raw_induct[OF _ assms])
  case (1 f mfcc sound_clip s bands window_size start r)
  show ?case
  proof (intro impI allI)
    fix ms
    assume sh: "mfcc_shape mfcc" and ws: "window_size = 512 * (frames - 1)" and r: "r = Inr ms"
    let ?p = "(py_int start, py_int (start + real_of_int window_size))"
    let ?signal = "py_slice sound_clip (fst ?p) (snd ?p)"
    let ?next = "start + real_of_int window_size / 2"
    show "\<forall>w\<in>set ms. int (fst (shape w)) = frames \<and> snd (shape w) = bands"
    proof (cases "start < real (length sound_clip)")
      case False
      with 1(2) r show ?thesis
        by simp
    next
      case lt: True
      show ?thesis
      proof (cases "full_length sound_clip window_size ?p")
        case False
        with lt 1(2) have "f mfcc sound_clip s bands window_size ?next = Some r"
          by simp
        from 1(1)[OF this] sh ws r show ?thesis
          by simp
      next
        case True
        with lt 1(2) r
        have eq: "(case mfcc ?signal s bands of
              Inl e \<Rightarrow> Some (Inl e)
            | Inr m \<Rightarrow>
                Option.bind (f mfcc sound_clip s bands window_size ?next)
                  (\<lambda>r. Some (case r of Inl e \<Rightarrow> Inl e
                             | Inr ms \<Rightarrow> Inr (transpose_T m # ms)))) = Some (Inr ms)"
          by simp
        then obtain m where m: "mfcc ?signal s bands = Inr m"
          and b: "Option.bind (f mfcc sound_clip s bands window_size ?next)
                  (\<lambda>r. Some (case r of Inl e \<Rightarrow> Inl e
                             | Inr ms \<Rightarrow> Inr (transpose_T m # ms))) = Some (Inr ms)"
          by (cases "mfcc ?signal s bands") auto
        from b obtain r' where r': "f mfcc sound_clip s bands window_size ?next = Some r'"
          and c: "(case r' of Inl e \<Rightarrow> Inl e | Inr ms \<Rightarrow> Inr (transpose_T m # ms)) = Inr ms"
          by (auto simp: bind_eq_Some_conv)
        from c obtain ms' where "r' = Inr ms'" and ms: "ms = transpose_T m # ms'"
          by (cases r') auto
        with r' have rest: "f mfcc sound_clip s bands window_size ?next = Some (Inr ms')"
          by simp
        from True ws have "int (length ?signal) = 512 * (frames - 1)"
          by (simp add: full_length_def)
        then have "int (length ?signal div 512) = frames - 1"
          by (simp add: zdiv_int)
        then have "int (1 + length ?signal div 512) = frames"
          by simp
        moreover from sh m have "shape m = (bands, 1 + length ?signal div 512)"
          by (simp add: mfcc_shape_def)
        ultimately have "int (fst (shape (transpose_T m))) = frames \<and>
            snd (shape (transpose_T m)) = bands"
          by (simp add: transpose_T_def shape_def)
        moreover from 1(1)[OF rest] sh ws
        have "\<forall>w\<in>set ms'. int (fst (shape w)) = frames \<and> snd (shape w) = bands"
          by simp
        ultimately show ?thesis
          by (simp add: ms)
      qed
    qed
  qed
qed

lemma extract_loop_shape:
  assumes "mfcc_shape mfcc"
  shows "extract_loop np mfcc clips i names bands (512 * (frames - 1)) = Some (Inr r) \<Longrightarrow>
     (\<forall>w\<in>set (fst r). int (fst (shape w)) = frames \<and> snd (shape w) = bands) \<and>
     length (snd r) = length (fst r)"
proof (induction clips arbitrary: i r)
  case Nil
  then show ?case by auto
next
  case (Cons clip clips)
  from Cons.prems obtain sc fw r' where
    fw: "clip_features mfcc sc (snd clip) bands (512 * (frames - 1)) = Some (Inr fw)"
    and rest: "extract_loop np mfcc clips (Suc i) names bands (512 * (frames - 1)) = Some (Inr r')"
    and r: "r = (fw @ fst r', replicate (length fw) (names ! i) @ snd r')"
    by (auto split: sum.splits if_splits option.splits)
  from fw window_loop_shape[of mfcc sc "snd clip" bands "512 * (frames - 1)" 0 "Inr fw" frames]
    assms
  have "\<forall>w\<in>set fw. int (fst (shape w)) = frames \<and> snd (shape w) = bands"
    by (simp add: clip_features_def)
  with Cons.IH[OF rest] show ?case
    by (auto simp: r)
qed

lemma clip_features_of_windows:
  assumes "0 < window_size"
  shows "\<exists>ps. windows sound_clip window_size = Some ps \<and>
     clip_features mfcc sound_clip s bands window_size =
       Some (mfcc_of_pairs mfcc sound_clip s bands
               (filter (\<lambda>p. snd p \<le> int (length sound_clip)) ps)) \<and>
     (window_size \<le> int (length sound_clip) \<longrightarrow>
        filter (\<lambda>p. snd p \<le> int (length sound_clip)) ps \<noteq> [])"
proof -
  obtain ps where ps: "windows_from 0 (length sound_clip) window_size = Some ps"
    using windows_from_total[OF assms] by blast
  from windows_from_pairs[OF ps] assms
  have pairs: "\<forall>p\<in>set ps. 0 \<le> fst p \<and> fst p < int (length sound_clip) \<and>
      snd p = fst p + window_size"
    by simp
  have "full_length sound_clip window_size p \<longleftrightarrow> snd p \<le> int (length sound_clip)"
    if "p \<in> set ps" for p
  proof -
    from pairs that have a: "0 \<le> fst p" "fst p < int (length sound_clip)"
      "snd p = fst p + window_size"
      by auto
    have "full_length sound_clip window_size p =
        full_length sound_clip window_size (fst p, fst p + window_size)"
      using a(3) by (metis prod.collapse)
    with full_length_iff[OF a(1) a(2) assms] a(3) show ?thesis
      by simp
  qed
  then have flt: "filter (full_length sound_clip window_size) ps =
      filter (\<lambda>p. snd p \<le> int (length sound_clip)) ps"
    by (intro filter_cong refl)
  have nonempty: "filter (\<lambda>p. snd p \<le> int (length sound_clip)) ps \<noteq> []"
    if "window_size \<le> int (length sound_clip)"
  proof -
    from that assms have "0 < int (length sound_clip)"
      by linarith
    then have lt: "(0 :: real) < real (length sound_clip)"
      by simp
    from ps windows_from_step[OF lt, of window_size] obtain rest where "ps = (0, window_size) # rest"
      by (auto simp: bind_eq_Some_conv)
    with that show ?thesis
      by simp
  qed
  from window_loop_of_windows[OF ps, of mfcc s bands] flt nonempty ps show ?thesis
    by (simp add: clip_features_def windows_def)
qed

lemma extract_loop_total:
  assumes "0 < window_size"
  shows "\<exists>r. extract_loop np mfcc clips i names bands window_size = Some r"
proof (induction clips arbitrary: i)
  case Nil
  show ?case by simp
next
  case (Cons clip clips)
  obtain sc where sc: "feature_normalize np (fst clip) = Inr sc"
    by (simp add: feature_normalize_def Let_def)
  obtain fw where fw: "clip_features mfcc sc (snd clip) bands window_size = Some fw"
    using clip_features_of_windows[OF assms] by blast
  from Cons.IH[of "Suc i"] obtain r'
    where r': "extract_loop np mfcc clips (Suc i) names bands window_size = Some r'"
    by blast
  show ?case
    by (simp add: sc fw r' split: sum.splits)
qed

lemma extract_loop_single:
  assumes "feature_normalize np raw = Inr sound_clip"
    and "clip_features mfcc sound_clip s bands window_size = Some res"
  shows "extract_loop np mfcc [(raw, s)] 0 [name] bands window_size =
     Some (case res of Inl e \<Rightarrow> Inl e | Inr ms \<Rightarrow> Inr (ms, replicate (length ms) name))"
  using assms by (simp split: sum.splits)

text \<open>
  Claim C6. Whatever the lengths of the recordings, every feature window that the
  feature extractor returns has \<open>frames\<close> rows and \<open>bands\<close> columns, given that an
  array returned by the MFCC transform has \<open>bands\<close> rows and one column for each hop
  of 512 samples plus one; and there is one label for each window. With
  \<open>frames \<ge> 2\<close> the extractor ends, with its windows or with the first error raised.
  For a single recording the transform is applied to the slices of those pairs of the
  generator that end within the normalized recording, in order, the other pairs being
  skipped, and a recording of at least \<open>window_size\<close> samples has at least one such
  pair.
\<close>

theorem extract_features_shape:
  assumes "mfcc_shape mfcc"
  shows "(\<forall>r. extract_features np mfcc clips names bands frames = Some (Inr r) \<longrightarrow>
            (\<forall>w\<in>set (fst r). int (fst (shape w)) = frames \<and> snd (shape w) = bands) \<and>
            length (snd r) = length (fst r)) \<and>
     (2 \<le> frames \<longrightarrow>
        (\<exists>r. extract_features np mfcc clips names bands frames = Some r)) \<and>
     (2 \<le> frames \<longrightarrow>
        (\<exists>sound_clip ps.
           feature_normalize np raw = Inr sound_clip \<and>
           windows sound_clip (512 * (frames - 1)) = Some ps \<and>
           extract_features np mfcc [(raw, s)] [name] bands frames =
             Some (case mfcc_of_pairs mfcc sound_clip s bands
                          (filter (\<lambda>p. snd p \<le> int (length sound_clip)) ps) of
                     Inl e \<Rightarrow> Inl e
                   | Inr ms \<Rightarrow> Inr (ms, replicate (length ms) name)) \<and>
           (512 * (frames - 1) \<le> int (length sound_clip) \<longrightarrow>
              filter (\<lambda>p. snd p \<le> int (length sound_clip)) ps \<noteq> [])))"
proof (intro conjI allI impI)
  fix r
  assume "extract_features np mfcc clips names bands frames = Some (Inr r)"
  then have r: "extract_loop np mfcc clips 0 names bands (512 * (frames - 1)) = Some (Inr r)"
    by (simp add: extract_features_def)
  from extract_loop_shape[OF assms r]
  show "\<forall>w\<in>set (fst r). int (fst (shape w)) = frames \<and> snd (shape w) = bands"
    and "length (snd r) = length (fst r)"
    by simp_all
next
  assume "2 \<le> frames"
  then have "0 < 512 * (frames - 1)"
    by simp
  from extract_loop_total[OF this]
  show "\<exists>r. extract_features np mfcc clips names bands frames = Some r"
    by (simp add: extract_features_def)
next
  assume "2 \<le> frames"
  then have pos: "0 < 512 * (frames - 1)"
    by simp
  obtain sound_clip where sc: "feature_normalize np raw = Inr sound_clip"
    by (simp add: feature_normalize_def Let_def)
  from clip_features_of_windows[OF pos, of sound_clip mfcc s bands] obtain ps
    where ps: "windows sound_clip (512 * (frames - 1)) = Some ps"
      and cf: "clip_features mfcc sound_clip s bands (512 * (frames - 1)) =
        Some (mfcc_of_pairs mfcc sound_clip s bands
               (filter (\<lambda>p. snd p \<le> int (length sound_clip)) ps))"
      and ne: "512 * (frames - 1) \<le> int (length sound_clip) \<longrightarrow>
        filter (\<lambda>p. snd p \<le> int (length sound_clip)) ps \<noteq> []"
    by blast
  have "extract_features np mfcc [(raw, s)] [name] bands frames =
      Some (case mfcc_of_pairs mfcc sound_clip s bands
                   (filter (\<lambda>p. snd p \<le> int (length sound_clip)) ps) of
              Inl e \<Rightarrow> Inl e
            | Inr ms \<Rightarrow> Inr (ms, replicate (length ms) name))"
    unfolding extract_features_def by (rule extract_loop_single[OF sc cf])
  with sc ps ne
  show "\<exists>sound_clip ps.
           feature_normalize np raw = Inr sound_clip \<and>
           windows sound_clip (512 * (frames - 1)) = Some ps \<and>
           extract_features np mfcc [(raw, s)] [name] bands frames =
             Some (case mfcc_of_pairs mfcc sound_clip s bands
                          (filter (\<lambda>p. snd p \<le> int (length sound_clip)) ps) of
                     Inl e \<Rightarrow> Inl e
                   | Inr ms \<Rightarrow> Inr (ms, replicate (length ms) name)) \<and>
           (512 * (frames - 1) \<le> int (length sound_clip) \<longrightarrow>
              filter (\<lambda>p. snd p \<le> int (length sound_clip)) ps \<noteq> [])"
    by blast
qed

lemma mfcc_shape_shape_only: "mfcc_shape shape_only_mfcc"
  by (simp add: mfcc_shape_def shape_only_mfcc_def shape_def split: if_splits)

lemma square_wave_normalized:
  "feature_normalize exact_numpy (replicate 256 (Fin 1) @ replicate 256 (Fin (- 1))) =
     Inr (replicate 256 (Fin 1) @ replicate 256 (Fin (- 1)))"
proof -
  let ?raw = "replicate 256 (Fin 1) @ replicate 256 (Fin (- 1))"
  have fin: "list_all is_fin ?raw"
    by (simp add: list_all_iff)
  have mean: "exact_mean ?raw = Fin 0"
    using fin by (simp add: exact_mean_def sum_list_replicate)
  have std: "exact_std ?raw = Fin 1"
    using fin by (simp add: exact_std_def mean sum_list_replicate)
  show ?thesis
    by (simp add: feature_normalize_def Let_def mean std)
qed

lemma square_wave_windows:
  "windows (replicate 256 (Fin 1) @ replicate 256 (Fin (- 1))) 512 = Some [(0, 512), (256, 768)]"
  by (simp add: windows_def windows_from.simps py_int_def)

lemma square_wave_slice:
  "py_slice (replicate 256 (Fin 1) @ replicate 256 (Fin (- 1))) 0 512 =
     replicate 256 (Fin 1) @ replicate 256 (Fin (- 1))"
  by (simp add: py_slice_def slice_index_def)

lemma square_wave_mfcc:
  "shape_only_mfcc (replicate 256 (Fin 1) @ replicate 256 (Fin (- 1))) 22050 (Suc 0) =
     Inr (Matrix (Suc 0) 2 [0, 0])"
  by (simp add: shape_only_mfcc_def list_all_iff numeral_2_eq_2)

lemma silence_normalized:
  "feature_normalize exact_numpy (replicate 512 (Fin 0)) = Inr (replicate 512 NaN)"
proof -
  have fin: "list_all is_fin (replicate 512 (Fin 0))"
    by (simp add: list_all_iff)
  have mean: "exact_mean (replicate 512 (Fin 0)) = Fin 0"
    using fin by (simp add: exact_mean_def sum_list_replicate)
  have std: "exact_std (replicate 512 (Fin 0)) = Fin 0"
    using fin by (simp add: exact_std_def mean sum_list_replicate)
  show ?thesis
    by (simp add: feature_normalize_def Let_def mean std)
qed

lemma silence_windows:
  "windows (replicate 512 NaN) 512 = Some [(0, 512), (256, 768)]"
  by (simp add: windows_def windows_from.simps py_int_def)

lemma silence_mfcc:
  "shape_only_mfcc (py_slice (replicate 512 NaN) 0 512) 22050 (Suc 0) = Inl ParameterError"
  by (simp add: shape_only_mfcc_def py_slice_def slice_index_def list_all_iff)

theorem extract_features_shape_witness:
  "mfcc_shape shape_only_mfcc \<and> (2 :: int) \<le> 2 \<and>
   extract_features exact_numpy shape_only_mfcc
       [(replicate 256 (Fin 1) @ replicate 256 (Fin (- 1)), 22050)] [''new''] 1 2 =
     Some (Inr ([Matrix 2 1 [0, 0]], [''new''])) \<and>
   shape (Matrix 2 1 [0, 0 :: real]) = (2, 1) \<and>
   extract_features exact_numpy shape_only_mfcc [(replicate 512 (Fin 0), 22050)] [''new''] 1 2 =
     Some (Inl ParameterError)"
proof -
  let ?raw = "replicate 256 (Fin 1) @ replicate 256 (Fin (- 1))"
  let ?zero = "replicate 512 (Fin 0)"
  have two: "(2 :: int) \<le> 2"
    by simp
  note t = extract_features_shape[OF mfcc_shape_shape_only,
      of exact_numpy "[(?raw, 22050)]" "[''new'']" 1 2 ?raw 22050 "''new''"]
  from t two obtain sound_clip ps where
    sc: "feature_normalize exact_numpy ?raw = Inr sound_clip"
    and ps: "windows sound_clip (512 * (2 - 1)) = Some ps"
    and ex: "extract_features exact_numpy shape_only_mfcc [(?raw, 22050)] [''new''] 1 2 =
       Some (case mfcc_of_pairs shape_only_mfcc sound_clip 22050 1
                    (filter (\<lambda>p. snd p \<le> int (length sound_clip)) ps) of
               Inl e \<Rightarrow> Inl e
             | Inr ms \<Rightarrow> Inr (ms, replicate (length ms) ''new''))"
    by blast
  from sc have sc': "sound_clip = ?raw"
    by (simp add: square_wave_normalized)
  from ps have ps': "ps = [(0, 512), (256, 768)]"
    by (simp add: sc' square_wave_windows)
  have kept: "filter (\<lambda>p. snd p \<le> int (length ?raw)) [(0, 512), (256, 768)] = [(0, 512)]"
    by simp
  have em: "mfcc_of_pairs shape_only_mfcc ?raw 22050 1 [(0, 512)] = Inr [Matrix 2 1 [0, 0]]"
    by (simp add: square_wave_slice square_wave_mfcc transpose_T_def upt_rec)
  have run: "extract_features exact_numpy shape_only_mfcc [(?raw, 22050)] [''new''] 1 2 =
      Some (Inr ([Matrix 2 1 [0, 0]], [''new'']))"
    unfolding ex sc' ps' kept em by simp
  note t0 = extract_features_shape[OF mfcc_shape_shape_only,
      of exact_numpy "[(?zero, 22050)]" "[''new'']" 1 2 ?zero 22050 "''new''"]
  from t0 two obtain silent_clip qs where
    zc: "feature_normalize exact_numpy ?zero = Inr silent_clip"
    and qs: "windows silent_clip (512 * (2 - 1)) = Some qs"
    and zx: "extract_features exact_numpy shape_only_mfcc [(?zero, 22050)] [''new''] 1 2 =
       Some (case mfcc_of_pairs shape_only_mfcc silent_clip 22050 1
                    (filter (\<lambda>p. snd p \<le> int (length silent_clip)) qs) of
               Inl e \<Rightarrow> Inl e
             | Inr ms \<Rightarrow> Inr (ms, replicate (length ms) ''new''))"
    by blast
  from zc have zc': "silent_clip = replicate 512 NaN"
    by (simp add: silence_normalized)
  from qs have qs': "qs = [(0, 512), (256, 768)]"
    by (simp add: zc' silence_windows)
  have kept0: "filter (\<lambda>p. snd p \<le> int (length (replicate 512 NaN))) [(0, 512), (256, 768)] =
      [(0, 512)]"
    by simp
  have em0: "mfcc_of_pairs shape_only_mfcc (replicate 512 NaN) 22050 1 [(0, 512)] =
      Inl ParameterError"
    by (simp add: silence_mfcc)
  have silent: "extract_features exact_numpy shape_only_mfcc [(?zero, 22050)] [''new''] 1 2 =
      Some (Inl ParameterError)"
    unfolding zx zc' qs' kept0 em0 by simp
  from run silent mfcc_shape_shape_only two show ?thesis
    by (simp add: shape_def)
qed

end
